theory Spec2Isabelle
  imports Main "HOL-Library.Word" "HOL-Library.Sublist" "HOL-Library.AList" "HOL-Library.Multiset"
begin

section \<open>Data model of the relay\<close>

text \<open>
  The relay is the JavaScript program of \<^verbatim>\<open>src/unnamed/part_003\<close> (with the schema of
  \<^verbatim>\<open>src/setup.js\<close>). Identifiers, tag values and keys are \<open>string\<close>s: only equality,
  concatenation and \<open>startsWith\<close> are applied to them, so the alphabet does not matter.
  The search string of a filter is the one string a regular expression runs over; it is
  kept as the sequence of UTF-16 code units a JavaScript string is.
\<close>

type_synonym jsstring = "16 word list"

text \<open>A JSON value, for the members of an event object that the code does not read.\<close>

datatype json =
  JNull
  | JBool bool
  | JNum int
  | JStr string
  | JArr "json list"
  | JObj "(string \<times> json) list"

text \<open>
  An event as \<open>JSON.parse\<close> delivers it and \<open>verifyEvent\<close> accepts it: the values of the
  seven members the code reads (\<open>payload.id\<close>, \<open>payload.kind\<close>, ...), the object's own keys
  as \<open>Object.keys\<close> lists them (the client's order), and the values of the keys other than
  the seven. An object a query returns has the seven keys of the \<open>SELECT\<close>, in its order.
\<close>

record event =
  id' :: string
  pubkey :: string
  sig :: string
  kind :: int
  created_at :: int
  content :: string
  tags :: "string list list"
  keys :: "string list"
  others :: "(string \<times> json) list"

text \<open>
  A filter: the options \<open>_handleRequest\<close> reads. \<open>tag_filters\<close> holds the entries whose key
  is \<open>#\<close> followed by one character, keyed by that character. A field is \<open>None\<close> when the
  key is absent (or, for \<open>since\<close>, \<open>until\<close>, when its value is not a number). \<open>search\<close> is
  the value after the unwrapping of a one-element array.
\<close>

record filter =
  ids :: "string list option"
  authors :: "string list option"
  kinds :: "int list option"
  tag_filters :: "(char \<times> string list) list"
  since :: "int option"
  until :: "int option"
  search :: "jsstring option"
  limit :: "int option"

text \<open>A server-side socket: the object itself and its \<open>data.createdAt\<close> (\<open>Date.now()\<close>).\<close>

record websocket =
  sock :: nat
  createdAt :: nat

datatype error =
  TypeError
  | BadInput
  | FtsSyntaxError
  | NoSuchColumn string
  | DatatypeMismatch
  | RowidConstraint
  | NotNullConstraint
  | NestedTransaction
  | StorageFull
  | SqlSyntaxError

text \<open>\<open>ErrorText e\<close> is the text \<^verbatim>\<open>`error: ${e}`\<close>.\<close>

datatype reason = Text string | ErrorText error

datatype frame =
  EVENT string event
  | EOSE string
  | OK string bool reason
  | CLOSED string reason
  | CLOSED2 string
  | NOTICE string

text \<open>\<open>ws.send\<close> writes to one socket, \<open>server.publish\<close> to a topic.\<close>

datatype dest = Send websocket | Publish string

text \<open>
  The collaborators of the relay, outside the repository:
  \<^item> \<open>verifyEvent\<close> of nostr-tools, a boolean oracle over an event;
  \<open>npubEncode\<close>, the bech32 encoding of a public key;
  \<^item> \<open>authorized\<close>, the contents of \<^verbatim>\<open>authorized.json\<close>;
  \<^item> the FTS5 engine: \<open>fts_match q\<close> is \<open>None\<close> when the engine rejects the expression
  \<open>q\<close>, otherwise the rows whose indexed text matches; the model raises whenever the
  engine rejects the expression;
  \<^item> \<open>name_like s\<close>, the SQL test \<^verbatim>\<open>events.tags like '%["name","s"]%'\<close> on a row;
  \<^item> \<open>sqlite_insert obj rows\<close>, what SQLite makes of the statement of \<open>_serialize\<close> when
  the keys of \<open>obj\<close> are not the seven column names: the keys are spliced into the text
  \<^verbatim>\<open>INSERT INTO events (...) VALUES (...)\<close> as they are, so a key may name a column in
  another case, name the rowid, name nothing, or be SQL text that reshapes the statement;
  the result is the error raised or the table after the statement;
  \<^item> \<open>random_rowid\<close>, SQLite's search for an unused rowid once the largest one is taken;
  \<^item> \<open>scan q rows\<close>, the order in which the engine yields the rows for the \<open>SELECT\<close> of
  a filter \<open>q\<close> (the filter with the search parameter as it is bound), which SQL leaves
  open among rows that \<open>ORDER BY\<close> does not separate; and \<open>join_scan\<close>, the same for the
  lookup of the event to replace, of which \<open>.get\<close> takes the first row.
\<close>

record env =
  verifyEvent :: "event \<Rightarrow> bool"
  npubEncode :: "string \<Rightarrow> string"
  authorized :: "string \<Rightarrow> string list option"
  fts_match :: "jsstring \<Rightarrow> (event \<Rightarrow> bool) option"
  name_like :: "jsstring \<Rightarrow> event \<Rightarrow> bool"
  sqlite_insert :: "event \<Rightarrow> (int \<times> event) list \<Rightarrow> error + (int \<times> event) list"
  random_rowid :: "int list \<Rightarrow> int option"
  scan :: "filter \<Rightarrow> (int \<times> event) list \<Rightarrow> (int \<times> event) list"
  join_scan :: "bool \<Rightarrow> string \<Rightarrow> int \<Rightarrow> string \<Rightarrow> (int \<times> event) list \<Rightarrow> (int \<times> event) list"

text \<open>
  The state: the \<open>events\<close> table (each row with its rowid), whether a \<open>BEGIN\<close> is
  open on the one database connection, the registry \<open>subIds\<close> (an object: keys in
  insertion order) and the topics sockets have subscribed to. The tables \<open>tags_index\<close> and
  \<open>events_fts\<close> are written by the triggers of \<^verbatim>\<open>setup.js\<close> on every insert and delete, so
  they are functions of the rows. A row keeps the tags as the array they are:
  \<open>_serialize\<close> writes them with \<open>JSON.stringify\<close> and \<open>_deserialize\<close> reads them back with
  \<open>JSON.parse\<close>.
\<close>

record relay =
  events :: "(int \<times> event) list"
  in_txn :: bool
  subIds :: "(string \<times> filter list) list"
  topics :: "(websocket \<times> string) list"

section \<open>Search sanitization\<close>

text \<open>
  \<^verbatim>\<open>filter.search.replace(/[^\w\s]|_/gi, " ")\<close>. \<open>\w\<close> is \<open>[A-Za-z0-9_]\<close>; \<open>\s\<close> is the
  white space and line terminators of ECMAScript.
\<close>

definition js_alnum :: "16 word \<Rightarrow> bool" where
  "js_alnum c = ((0x30 \<le> c \<and> c \<le> 0x39) \<or> (0x41 \<le> c \<and> c \<le> 0x5A) \<or> (0x61 \<le> c \<and> c \<le> 0x7A))"

definition js_word :: "16 word \<Rightarrow> bool" where
  "js_word c = (js_alnum c \<or> c = 0x5F)"

definition js_space :: "16 word \<Rightarrow> bool" where
  "js_space c = ((0x09 \<le> c \<and> c \<le> 0x0D) \<or> c = 0x20 \<or> c = 0xA0 \<or> c = 0x1680
     \<or> (0x2000 \<le> c \<and> c \<le> 0x200A) \<or> c = 0x2028 \<or> c = 0x2029 \<or> c = 0x202F
     \<or> c = 0x205F \<or> c = 0x3000 \<or> c = 0xFEFF)"

definition sanitize :: "jsstring \<Rightarrow> jsstring" where
  "sanitize s = map (\<lambda>c. if \<not> (js_word c \<or> js_space c) \<or> c = 0x5F then 0x20 else c) s"

text \<open>An ASCII literal as a JavaScript string.\<close>

definition js :: "string \<Rightarrow> jsstring" where
  "js s = map (\<lambda>c. of_nat (of_char c)) s"

section \<open>Validation\<close>

text \<open>\<^verbatim>\<open>tags.find(t => t[0] == name)?.[1]\<close>; \<open>None\<close> is \<open>undefined\<close>.\<close>

definition getFirstTag :: "string list list \<Rightarrow> string \<Rightarrow> string option" where
  "getFirstTag ts name =
     (case find (\<lambda>t. case t of [] \<Rightarrow> False | n # _ \<Rightarrow> n = name) ts of
        None \<Rightarrow> None
      | Some t \<Rightarrow> (case t of _ # v # _ \<Rightarrow> Some v | _ \<Rightarrow> None))"

text \<open>
  \<open>_validateEvent\<close>. \<open>dTag.startsWith\<close> on an \<open>undefined\<close> d-tag raises a \<open>TypeError\<close>; the
  list is not empty there, so the callback of \<open>some\<close> runs.
\<close>

definition validateEvent :: "env \<Rightarrow> event \<Rightarrow> error + bool" where
  "validateEvent env e =
     (if \<not> verifyEvent env e then Inr False
      else let dTag = getFirstTag (tags e) ''d'' in
        case authorized env (npubEncode env (pubkey e)) of
          None \<Rightarrow> Inr False
        | Some allowed \<Rightarrow>
            if length allowed = 0 then Inr True
            else if kind e = 30063 then
              (case dTag of
                 None \<Rightarrow> Inl TypeError
               | Some d \<Rightarrow> Inr (0 < length allowed \<and> list_ex (\<lambda>p. prefix p d) allowed))
            else if kind e = 32267 then
              Inr (0 < length allowed \<and> list_ex (\<lambda>p. Some p = dTag) allowed)
            else Inr True)"

section \<open>The store\<close>

text \<open>The columns of \<open>events\<close> (\<^verbatim>\<open>setup.js\<close>).\<close>

definition columns :: "string list" where
  "columns = [''id'', ''pubkey'', ''sig'', ''kind'', ''created_at'', ''content'', ''tags'']"

text \<open>
  \<open>_serialize\<close>: the column list of the \<open>INSERT\<close> is \<open>Object.keys(obj)\<close>, in the object's
  order, with one placeholder and one bound value per key.
\<close>

definition serialize :: "event \<Rightarrow> string list" where
  "serialize obj = keys obj"

text \<open>
  The column list of the statement is exactly the seven column names, in any order
  (seven keys, every column name among them): the statement then names each column once
  and binds to it the member of that name.
\<close>

definition standard_keys :: "event \<Rightarrow> bool" where
  "standard_keys obj =
     (let ks = serialize obj in length ks = length columns \<and> list_all (\<lambda>c. c \<in> set ks) columns)"

text \<open>The row of an event, as a query returns it: the seven columns.\<close>

definition row_of :: "event \<Rightarrow> event" where
  "row_of obj = obj\<lparr>keys := columns, others := []\<rparr>"

text \<open>
  Trigger \<open>events_ai\<close>: one \<open>tags_index\<close> row \<open>name || ':' || value\<close> for every tag whose
  name has length 1. For such a tag without a value the concatenation is \<open>NULL\<close>, which
  the \<open>NOT NULL\<close> column refuses: the insert fails.
\<close>

definition single_letter_tags :: "event \<Rightarrow> string list list" where
  "single_letter_tags e = filter (\<lambda>t. case t of [] \<Rightarrow> False | n # _ \<Rightarrow> length n = 1) (tags e)"

definition tags_index_values :: "event \<Rightarrow> string list" where
  "tags_index_values e =
     concat (map (\<lambda>t. case t of n # v # _ \<Rightarrow> [n @ '':'' @ v] | _ \<Rightarrow> []) (single_letter_tags e))"

text \<open>
  The rowid SQLite chooses when the statement gives none: 1 in an empty table, else one
  more than the largest, and a search for an unused one when the largest is taken.
\<close>

definition next_rowid :: "(int list \<Rightarrow> int option) \<Rightarrow> (int \<times> event) list \<Rightarrow> int option" where
  "next_rowid random rows =
     (case map fst rows of
        [] \<Rightarrow> Some 1
      | r # rs \<Rightarrow>
          let m = fold max rs r in
          if m < 2 ^ 63 - 1 then Some (m + 1) else random (r # rs))"

text \<open>
  One row inserted into \<open>events\<close>, under the rowid the statement gives or else the one
  SQLite chooses: the rowid must be new, and the trigger \<open>events_ai\<close> runs.
\<close>

definition insert_row ::
  "(int list \<Rightarrow> int option) \<Rightarrow> int option \<Rightarrow> event \<Rightarrow> (int \<times> event) list
     \<Rightarrow> error + (int \<times> event) list" where
  "insert_row random given row rows =
     (case (case given of Some r \<Rightarrow> Some r | None \<Rightarrow> next_rowid random rows) of
        None \<Rightarrow> Inl StorageFull
      | Some r \<Rightarrow>
          if r \<in> set (map fst rows) then Inl RowidConstraint
          else if list_ex (\<lambda>t. length t < 2) (single_letter_tags row) then Inl NotNullConstraint
          else Inr (insort_key fst (r, row) rows))"

text \<open>
  \<^verbatim>\<open>db.query(query).run(params)\<close> for the statement of \<open>_serialize\<close>. With exactly the
  seven column names for keys the statement inserts the event's own values under a new
  rowid. With any other key list the text of the statement is in the hands of the
  client, and the outcome is SQLite's.
\<close>

definition insert_event :: "env \<Rightarrow> event \<Rightarrow> (int \<times> event) list \<Rightarrow> error + (int \<times> event) list" where
  "insert_event env obj rows =
     (if standard_keys obj then insert_row (random_rowid env) None (row_of obj) rows
      else sqlite_insert env obj rows)"

text \<open>\<^verbatim>\<open>SELECT EXISTS(SELECT 1 FROM events WHERE id = $id)\<close>\<close>

definition exists_id :: "string \<Rightarrow> (int \<times> event) list \<Rightarrow> bool" where
  "exists_id i rows = list_ex (\<lambda>(_, e). id' e = i) rows"

text \<open>
  The order in which the engine yields the rows of the table for a statement: a
  rearrangement \<open>plan\<close> of the rows (a plan that loses or invents a row is not one).
\<close>

definition engine_order ::
  "((int \<times> event) list \<Rightarrow> (int \<times> event) list) \<Rightarrow> (int \<times> event) list \<Rightarrow> (int \<times> event) list" where
  "engine_order plan rows = (let s = plan rows in if mset s = mset rows then s else rows)"

text \<open>
  \<open>idQuery\<close> with \<open>.get\<close>: the id of the first row the engine yields among those of the
  publisher and kind; for a parameterizable kind the rows are joined with their
  \<open>tags_index\<close> rows of value \<open>d\<close>.
\<close>

definition idQuery ::
  "env \<Rightarrow> bool \<Rightarrow> string \<Rightarrow> int \<Rightarrow> string \<Rightarrow> (int \<times> event) list \<Rightarrow> string option" where
  "idQuery env parameterizable pk n d rows =
     map_option (\<lambda>(_, e). id' e)
       (find (\<lambda>(_, e). pubkey e = pk \<and> kind e = n \<and>
                (parameterizable \<longrightarrow> d \<in> set (tags_index_values e)))
          (engine_order (join_scan env parameterizable pk n d) rows))"

text \<open>\<^verbatim>\<open>DELETE FROM events WHERE id IN (...)\<close>\<close>

definition delete_ids :: "string list \<Rightarrow> (int \<times> event) list \<Rightarrow> (int \<times> event) list" where
  "delete_ids is rows = filter (\<lambda>(_, e). id' e \<notin> set is) rows"

text \<open>A value inside a template literal: \<open>undefined\<close> prints as its name.\<close>

definition template :: "string option \<Rightarrow> string" where
  "template v = (case v of None \<Rightarrow> ''undefined'' | Some s \<Rightarrow> s)"

text \<open>Truthiness of a value that is a string, \<open>undefined\<close> or \<open>null\<close>.\<close>

definition truthy :: "'a list option \<Rightarrow> bool" where
  "truthy v = (case v of None \<Rightarrow> False | Some s \<Rightarrow> s \<noteq> [])"

section \<open>Requests\<close>

definition allowed_kinds :: "int list" where
  "allowed_kinds = [1011, 1063, 30063, 32267, 30267]"

text \<open>The validation of \<open>_handleRequest\<close>, negated.\<close>

definition admitted :: "filter \<Rightarrow> bool" where
  "admitted f = (case kinds f of None \<Rightarrow> False | Some ks \<Rightarrow> list_ex (\<lambda>k. k \<in> set allowed_kinds) ks)"

text \<open>\<open>slRegex\<close> on the key \<open>#c\<close>.\<close>

definition is_letter :: "char \<Rightarrow> bool" where
  "is_letter c = (let n = (of_char c :: nat) in (65 \<le> n \<and> n \<le> 90) \<or> (97 \<le> n \<and> n \<le> 122))"

definition in_list :: "'a \<Rightarrow> 'a list option \<Rightarrow> bool" where
  "in_list x l = (case l of None \<Rightarrow> True | Some xs \<Rightarrow> x \<in> set xs)"

definition tag_where :: "char \<times> string list \<Rightarrow> event \<Rightarrow> bool" where
  "tag_where kv e =
     (case kv of (letter, vs) \<Rightarrow>
        is_letter letter \<longrightarrow> list_ex (\<lambda>v. [letter] @ '':'' @ v \<in> set (tags_index_values e)) vs)"

text \<open>The search condition: a name match for a string of length 2, else the FTS match.\<close>

definition search_where :: "env \<Rightarrow> filter \<Rightarrow> error + (event \<Rightarrow> bool)" where
  "search_where env f =
     (case search f of
        None \<Rightarrow> Inr (\<lambda>_. True)
      | Some s \<Rightarrow>
          if length s = 2 then Inr (name_like env s)
          else (case fts_match env (sanitize s) of
                  None \<Rightarrow> Inl FtsSyntaxError
                | Some m \<Rightarrow> Inr m))"

definition row_matches :: "filter \<Rightarrow> (event \<Rightarrow> bool) \<Rightarrow> event \<Rightarrow> bool" where
  "row_matches f sw e =
     (in_list (id' e) (ids f) \<and> in_list (pubkey e) (authors f) \<and> in_list (kind e) (kinds f)
      \<and> list_all (\<lambda>kv. tag_where kv e) (tag_filters f)
      \<and> (case since f of None \<Rightarrow> True | Some t \<Rightarrow> t \<le> created_at e)
      \<and> (case until f of None \<Rightarrow> True | Some t \<Rightarrow> created_at e \<le> t)
      \<and> sw e)"

text \<open>No condition at all leaves \<open>WHERE\<close> without an expression.\<close>

definition wheres_empty :: "filter \<Rightarrow> bool" where
  "wheres_empty f =
     (ids f = None \<and> authors f = None \<and> kinds f = None
      \<and> \<not> list_ex (\<lambda>kv. is_letter (fst kv)) (tag_filters f)
      \<and> since f = None \<and> until f = None \<and> search f = None)"

text \<open>The filter as the statement sees it: the search parameter is the sanitized string.\<close>

definition bound :: "filter \<Rightarrow> filter" where
  "bound f = f\<lparr>search := map_option (\<lambda>s. if length s = 2 then s else sanitize s) (search f)\<rparr>"

text \<open>
  One filter's query. Without a truthy \<open>search\<close> the rows are ordered by \<open>created_at\<close>
  descending; SQL leaves the order among equal keys, and the order without \<open>ORDER BY\<close>,
  to the engine. \<open>limit\<close> is added when truthy; a negative \<open>LIMIT\<close> is no bound.
\<close>

definition query_filter :: "env \<Rightarrow> filter \<Rightarrow> (int \<times> event) list \<Rightarrow> error + event list" where
  "query_filter env f rows =
     (if wheres_empty f then Inl SqlSyntaxError
      else case search_where env f of
        Inl err \<Rightarrow> Inl err
      | Inr sw \<Rightarrow>
          let matching = filter (row_matches f sw) (map snd (engine_order (scan env (bound f)) rows));
              ordered = (if truthy (search f) then matching
                         else sort_key (\<lambda>e. - created_at e) matching)
          in Inr (case limit f of
                    None \<Rightarrow> ordered
                  | Some n \<Rightarrow> if n = 0 then ordered
                             else if n < 0 then ordered
                             else take (nat n) ordered))"

text \<open>The loop over the filters: \<open>events.push(...results)\<close>, the first error ends it.\<close>

fun run_queries :: "env \<Rightarrow> filter list \<Rightarrow> (int \<times> event) list \<Rightarrow> error + event list" where
  "run_queries env [] rows = Inr []"
| "run_queries env (f # fs) rows =
     (case query_filter env f rows of
        Inl err \<Rightarrow> Inl err
      | Inr r \<Rightarrow> (case run_queries env fs rows of
                   Inl err \<Rightarrow> Inl err
                 | Inr rs \<Rightarrow> Inr (r @ rs)))"

definition ephemeral :: "event \<Rightarrow> bool" where
  "ephemeral e = (20000 \<le> kind e \<and> kind e < 30000)"

text \<open>A number inside a template literal or coerced by \<open>startsWith\<close>: its decimal digits.\<close>

function dec :: "nat \<Rightarrow> string" where
  "dec n = (if n < 10 then [''0123456789'' ! n] else dec (n div 10) @ [''0123456789'' ! (n mod 10)])"
  by pat_completeness auto
termination
  by (relation "measure (\<lambda>n. n)") auto

declare dec.simps [simp del]

text \<open>What a call returns: \<open>undefined\<close>, a value (the REST bridge), or an exception.\<close>

datatype outcome = Done | Returned "event list" | Thrown error

text \<open>
  \<open>_handleRequest(ws, reqId, filters, existingSubId)\<close>; \<open>ws\<close> is \<open>None\<close> for \<open>null\<close>.
\<close>

definition handleRequest ::
  "env \<Rightarrow> websocket option \<Rightarrow> string \<Rightarrow> filter list \<Rightarrow> string option \<Rightarrow> relay
     \<Rightarrow> relay \<times> (dest \<times> frame) list \<times> outcome" where
  "handleRequest env ws reqId filters existingSubId st =
     (if \<not> list_all admitted filters then
        (case ws of
           Some w \<Rightarrow> (st, [(Send w, CLOSED reqId (Text ''''))], Done)
         | None \<Rightarrow> (st, [], Returned []))
      else
        let subId = (case existingSubId of
                       Some s \<Rightarrow> s
                     | None \<Rightarrow> (case ws of
                                  Some w \<Rightarrow> dec (createdAt w) @ ''-'' @ reqId
                                | None \<Rightarrow> ''null-'' @ reqId));
            beforeEose = (ws \<noteq> None \<and> \<not> truthy existingSubId);
            st1 = (case ws of
                     Some w \<Rightarrow>
                       if \<not> truthy existingSubId
                       then st\<lparr>topics := topics st @ [(w, subId)],
                               subIds := AList.update subId filters (subIds st)\<rparr>
                       else st
                   | None \<Rightarrow> st)
        in if beforeEose \<and> length filters = 0 then (st1, [(Publish subId, EOSE reqId)], Done)
           else case run_queries env filters (events st1) of
             Inl err \<Rightarrow>
               (case ws of
                  Some w \<Rightarrow> (st1, [(Send w, CLOSED reqId (ErrorText err))], Done)
                | None \<Rightarrow> (st1, [], Thrown err))
           | Inr evs \<Rightarrow>
               let ephemeralIds = map id' (filter ephemeral evs);
                   st2 = (if 0 < length ephemeralIds
                          then st1\<lparr>events := delete_ids ephemeralIds (events st1)\<rparr>
                          else st1)
               in case ws of
                    Some w \<Rightarrow>
                      (st2, map (\<lambda>e. (Publish subId, EVENT reqId e)) evs
                            @ (if beforeEose \<and> \<not> truthy existingSubId
                               then [(Publish subId, EOSE reqId)] else []), Done)
                  | None \<Rightarrow> (st2, [], Returned evs))"

section \<open>Events\<close>

text \<open>
  \<^verbatim>\<open>const [_, ...parts] = subId.split('-'); const reqId = parts.join('-')\<close>: what follows
  the first dash.
\<close>

definition reqId_of :: "string \<Rightarrow> string" where
  "reqId_of subId = (case dropWhile (\<lambda>c. c \<noteq> CHR ''-'') subId of [] \<Rightarrow> [] | _ # r \<Rightarrow> r)"

text \<open>
  The loop over \<open>Object.keys(subIds)\<close> in \<open>_handleEvent\<close>. The calls it makes pass an
  \<open>existingSubId\<close>, so they leave the registry as it is and the loop can run over the
  entries.
\<close>

fun fanout ::
  "env \<Rightarrow> websocket \<Rightarrow> event \<Rightarrow> (string \<times> filter list) list \<Rightarrow> relay
     \<Rightarrow> relay \<times> (dest \<times> frame) list" where
  "fanout env ws payload [] st = (st, [])"
| "fanout env ws payload ((subId, filters) # rest) st =
     (let reqId = reqId_of subId;
          updatedFilters = map (\<lambda>f. f\<lparr>ids := Some [id' payload]\<rparr>) filters;
          (st1, frames1, _) = handleRequest env (Some ws) reqId updatedFilters (Some subId) st;
          (st2, frames2) = fanout env ws payload rest st1
      in (st2, frames1 @ frames2))"

text \<open>
  The statements between \<open>_serialize\<close> and the acknowledgement: \<open>BEGIN\<close> when there is an
  id to remove (it fails inside an open transaction), the insert, then the delete and
  \<open>COMMIT\<close>. An error leaves the state reached so far.
\<close>

definition write_event :: "env \<Rightarrow> event \<Rightarrow> string option \<Rightarrow> relay \<Rightarrow> error \<times> relay + relay" where
  "write_event env payload idToRemove st =
     (case (if truthy idToRemove then idToRemove else None) of
        None \<Rightarrow>
          (case insert_event env payload (events st) of
             Inl err \<Rightarrow> Inl (err, st)
           | Inr rows \<Rightarrow> Inr (st\<lparr>events := rows\<rparr>))
      | Some i \<Rightarrow>
          if in_txn st then Inl (NestedTransaction, st)
          else (case insert_event env payload (events st) of
                  Inl err \<Rightarrow> Inl (err, st\<lparr>in_txn := True\<rparr>)
                | Inr rows \<Rightarrow> Inr (st\<lparr>events := delete_ids [i] rows, in_txn := False\<rparr>)))"

text \<open>
  The id to remove: for the kinds 0, 3, 10000 to 19999 and 30000 to 39999 the result of
  \<open>idQuery\<close>, with \<^verbatim>\<open>`d:${dTag}`\<close> for the parameter \<open>$d\<close>; otherwise \<open>undefined\<close>.
\<close>

definition idToRemove :: "env \<Rightarrow> event \<Rightarrow> (int \<times> event) list \<Rightarrow> string option" where
  "idToRemove env payload rows =
     (let n = kind payload;
          parameterizable = (30000 \<le> n \<and> n < 40000)
      in if n = 0 \<or> n = 3 \<or> (10000 \<le> n \<and> n < 20000) \<or> parameterizable
         then idQuery env parameterizable (pubkey payload) n
                (''d:'' @ template (getFirstTag (tags payload) ''d'')) rows
         else None)"

text \<open>\<open>_handleEvent(ws, payload)\<close>. The \<open>catch\<close> block acknowledges with the error and rethrows.\<close>

definition handleEvent ::
  "env \<Rightarrow> websocket option \<Rightarrow> event \<Rightarrow> relay \<Rightarrow> relay \<times> (dest \<times> frame) list \<times> outcome" where
  "handleEvent env ws payload st =
     (let caught = (\<lambda>err st'.
            (st', (case ws of
                     Some w \<Rightarrow> [(Send w, OK (id' payload) False (ErrorText err))]
                   | None \<Rightarrow> []), Thrown err))
      in case validateEvent env payload of
        Inl err \<Rightarrow> caught err st
      | Inr isValid \<Rightarrow>
          if isValid then
            if exists_id (id' payload) (events st) then
              (st, (case ws of
                      Some w \<Rightarrow> [(Send w, OK (id' payload) False (Text ''duplicate''))]
                    | None \<Rightarrow> []), Done)
            else
              case write_event env payload (idToRemove env payload (events st)) st of
                Inl (err, st') \<Rightarrow> caught err st'
              | Inr st1 \<Rightarrow>
                  (case ws of
                     None \<Rightarrow> (st1, [], Done)
                   | Some w \<Rightarrow>
                       let (st2, frames) = fanout env w payload (subIds st1) st1
                       in (st2, (Send w, OK (id' payload) isValid (Text '''')) # frames, Done))
          else
            (case ws of
               Some w \<Rightarrow> (st, [(Send w, OK (id' payload) False (Text ''invalid: not accepted''))], Done)
             | None \<Rightarrow> (st, [], Thrown BadInput)))"

section \<open>The connection\<close>

definition handleClose :: "websocket \<Rightarrow> string \<Rightarrow> relay \<Rightarrow> relay \<times> (dest \<times> frame) list \<times> outcome" where
  "handleClose ws reqId st =
     (st\<lparr>subIds := AList.delete (dec (createdAt ws) @ ''-'' @ reqId) (subIds st)\<rparr>,
      [(Send ws, CLOSED2 reqId)], Done)"

definition handleError :: "websocket \<Rightarrow> string \<Rightarrow> relay \<Rightarrow> relay \<times> (dest \<times> frame) list \<times> outcome" where
  "handleError ws type st = (st, [(Send ws, NOTICE (''error: wtf you mean by '' @ type))], Done)"

text \<open>A parsed array frame \<open>[type, payload, ...filters]\<close>.\<close>

datatype message = ReqMsg string "filter list" | EventMsg event | CloseMsg string | OtherMsg string

fun websocket_message ::
  "env \<Rightarrow> websocket \<Rightarrow> message \<Rightarrow> relay \<Rightarrow> relay \<times> (dest \<times> frame) list \<times> outcome" where
  "websocket_message env ws (ReqMsg payload filters) st = handleRequest env (Some ws) payload filters None st"
| "websocket_message env ws (EventMsg payload) st = handleEvent env (Some ws) payload st"
| "websocket_message env ws (CloseMsg payload) st = handleClose ws payload st"
| "websocket_message env ws (OtherMsg type) st = handleError ws type st"

text \<open>
  \<open>websocket.close\<close>: \<^verbatim>\<open>subId.startsWith(ws.data.createdAt)\<close> deletes the key. A closed
  socket leaves its topics.
\<close>

definition websocket_close :: "websocket \<Rightarrow> relay \<Rightarrow> relay" where
  "websocket_close ws st =
     st\<lparr>subIds := filter (\<lambda>(subId, _). \<not> prefix (dec (createdAt ws)) subId) (subIds st),
        topics := filter (\<lambda>(w, _). w \<noteq> ws) (topics st)\<rparr>"

text \<open>
  The server: the open sockets and the relay state. A socket is opened by \<open>server.upgrade\<close>,
  sends frames while it is open, and is closed; the REST bridge calls \<open>_handleEvent\<close> with
  \<open>null\<close> for the socket when \<open>body.id && body.sig\<close>, and \<open>_handleRequest\<close> otherwise.
  \<open>sent\<close> holds of the event objects the clients submit.
\<close>

inductive server_step ::
  "env \<Rightarrow> (event \<Rightarrow> bool) \<Rightarrow> websocket list \<times> relay \<Rightarrow> websocket list \<times> relay \<Rightarrow> bool"
  for env :: env and sent :: "event \<Rightarrow> bool" where
  upgrade: "w \<notin> set live \<Longrightarrow> server_step env sent (live, st) (w # live, st)"
| message: "w \<in> set live \<Longrightarrow> \<forall>e. m = EventMsg e \<longrightarrow> sent e
     \<Longrightarrow> websocket_message env w m st = (st', out)
     \<Longrightarrow> server_step env sent (live, st) (live, st')"
| closed: "w \<in> set live \<Longrightarrow> server_step env sent (live, st) (removeAll w live, websocket_close w st)"
| rest_event: "sent payload \<Longrightarrow> id' payload \<noteq> [] \<Longrightarrow> sig payload \<noteq> []
     \<Longrightarrow> handleEvent env None payload st = (st', out)
     \<Longrightarrow> server_step env sent (live, st) (live, st')"
| rest_request: "handleRequest env None [] body None st = (st', out)
     \<Longrightarrow> server_step env sent (live, st) (live, st')"

section \<open>Observations, the spec's sanitizer and sample data\<close>

text \<open>
  The events a call hands back: the payloads of its \<open>EVENT\<close> frames and, for the REST
  bridge, the returned array.
\<close>

definition delivered :: "(dest \<times> frame) list \<Rightarrow> outcome \<Rightarrow> event list" where
  "delivered frames r =
     concat (map (\<lambda>(d, fr). case fr of EVENT _ e \<Rightarrow> [e] | _ \<Rightarrow> []) frames)
     @ (case r of Returned evs \<Rightarrow> evs | _ \<Rightarrow> [])"

text \<open>
  The sanitizer in the words of the specification: every character outside
  \<open>[A-Za-z0-9_\s]\<close> becomes a space, every character inside stays.
\<close>

definition sanitize_spec :: "jsstring \<Rightarrow> jsstring" where
  "sanitize_spec s = map (\<lambda>c. if js_word c \<or> js_space c then c else 0x20) s"

text \<open>
  SQLite's answer on the non-standard key lists of the examples, each the seven column
  names and one more key.
  \<^item> \<open>foo\<close> after the seven: the statement names a column the table does not have.
  \<^item> \<open>rowid\<close> after the seven, with an integer: \<open>rowid\<close> names the rowid of a rowid table,
  so the statement is valid and stores the event under the given rowid.
  \<^item> \<open>Kind\<close> before the seven, with an integer, or \<open>ID\<close> before the seven, with a string:
  column names are case-insensitive, and of a column named twice the first occurrence
  is the one stored, so the row has the additional key's value for \<open>kind\<close> or \<open>id\<close>.

  The sample leaves every other key list a syntax error.
\<close>

definition sample_insert :: "event \<Rightarrow> (int \<times> event) list \<Rightarrow> error + (int \<times> event) list" where
  "sample_insert obj rows =
     (if keys obj = columns @ [''foo''] then Inl (NoSuchColumn ''foo'')
      else case others obj of
        [(k, JNum n)] \<Rightarrow>
          if k = ''rowid'' \<and> keys obj = columns @ [k]
          then insert_row (\<lambda>_. None) (Some n) (row_of obj) rows
          else if k = ''Kind'' \<and> keys obj = k # columns
          then insert_row (\<lambda>_. None) None ((row_of obj)\<lparr>kind := n\<rparr>) rows
          else Inl SqlSyntaxError
      | [(k, JStr i)] \<Rightarrow>
          if k = ''ID'' \<and> keys obj = k # columns
          then insert_row (\<lambda>_. None) None ((row_of obj)\<lparr>id' := i\<rparr>) rows
          else Inl SqlSyntaxError
      | _ \<Rightarrow> Inl SqlSyntaxError)"

text \<open>
  A sample environment: every signature verifies, publisher \<open>p\<close> is unrestricted and
  publisher \<open>q\<close> is restricted to two d-tag values, the FTS engine rejects the empty
  expression and matches nothing else, and the engine yields rows in rowid order.
\<close>

definition sample_env :: env where
  "sample_env =
     \<lparr>verifyEvent = (\<lambda>_. True),
      npubEncode = (\<lambda>p. ''npub1'' @ p),
      authorized = (\<lambda>n. if n = ''npub1p'' then Some []
                         else if n = ''npub1q'' then Some [''app.'', ''dev.zapstore''] else None),
      fts_match = (\<lambda>q. if q = [] then None else Some (\<lambda>_. False)),
      name_like = (\<lambda>_ _. False),
      sqlite_insert = sample_insert,
      random_rowid = (\<lambda>_. None),
      scan = (\<lambda>_ rows. rows),
      join_scan = (\<lambda>_ _ _ _ rows. rows)\<rparr>"

definition sample_event :: "string \<Rightarrow> string \<Rightarrow> int \<Rightarrow> int \<Rightarrow> string list list \<Rightarrow> event" where
  "sample_event i p k t ts =
     \<lparr>id' = i, pubkey = p, sig = ''s'', kind = k, created_at = t, content = '''', tags = ts,
      keys = columns, others = []\<rparr>"

definition empty_relay :: relay where
  "empty_relay = \<lparr>events = [], in_txn = False, subIds = [], topics = []\<rparr>"

definition ws1 :: websocket where
  "ws1 = \<lparr>sock = 1, createdAt = 17\<rparr>"

definition kinds_filter :: "int list \<Rightarrow> filter" where
  "kinds_filter ks =
     \<lparr>ids = None, authors = None, kinds = Some ks, tag_filters = [], since = None,
      until = None, search = None, limit = None\<rparr>"

text \<open>
  A registry key is a socket's own when that socket subscribed to it:
  \<open>ws.subscribe(subId)\<close> runs where \<open>subIds[subId]\<close> is written, on the socket that sent the
  \<open>REQ\<close>. The invariant of the registry: every key is an open socket's own, and every
  topic a socket subscribed to starts with the decimal digits of its \<open>createdAt\<close> and a
  dash.
\<close>

definition owns :: "relay \<Rightarrow> websocket \<Rightarrow> string \<Rightarrow> bool" where
  "owns st w subId = ((w, subId) \<in> set (topics st))"

definition owned_by_live :: "websocket list \<Rightarrow> relay \<Rightarrow> bool" where
  "owned_by_live live st =
     (list_all (\<lambda>(subId, _). list_ex (\<lambda>w. owns st w subId) live) (subIds st)
      \<and> list_all (\<lambda>(w, subId). prefix (dec (createdAt w) @ ''-'') subId) (topics st))"

definition ws2 :: websocket where
  "ws2 = \<lparr>sock = 2, createdAt = 174\<rparr>"

definition ws3 :: websocket where
  "ws3 = \<lparr>sock = 3, createdAt = 23\<rparr>"

text \<open>A second socket opened in the millisecond of \<open>ws1\<close>.\<close>

definition ws4 :: websocket where
  "ws4 = \<lparr>sock = 4, createdAt = 17\<rparr>"

text \<open>The state after socket \<open>ws1\<close> has subscribed as \<open>s1\<close> with one filter.\<close>

definition subscribed_relay :: "filter \<Rightarrow> relay" where
  "subscribed_relay f = \<lparr>events = [], in_txn = False, subIds = [(''17-s1'', [f])], topics = [(ws1, ''17-s1'')]\<rparr>"

text \<open>
  The replaceable kinds that are looked up by publisher and kind alone, and the rows of
  a publisher and kind.
\<close>

definition replaceable :: "int \<Rightarrow> bool" where
  "replaceable k = (k = 0 \<or> k = 3 \<or> (10000 \<le> k \<and> k < 20000))"

definition holders :: "string \<Rightarrow> int \<Rightarrow> (int \<times> event) list \<Rightarrow> (int \<times> event) list" where
  "holders p k rows = filter (\<lambda>row. pubkey (snd row) = p \<and> kind (snd row) = k) rows"

text \<open>The sample environment with a verification that refuses an empty id.\<close>

definition checked_env :: env where
  "checked_env = sample_env\<lparr>verifyEvent := (\<lambda>e. id' e \<noteq> [])\<rparr>"

text \<open>The event carries a tag named \<open>d\<close> whose first value is \<open>v\<close>.\<close>

definition has_d_tag :: "event \<Rightarrow> string \<Rightarrow> bool" where
  "has_d_tag x v = list_ex (\<lambda>t. take 2 t = [''d'', v]) (tags x)"

section \<open>Basic facts\<close>

lemma row_matches_search [simp]: "row_matches (f\<lparr>search := s\<rparr>) sw = row_matches f sw"
  by (rule ext) (simp add: row_matches_def)

lemma standard_keys_iff:
  "standard_keys obj
     = (length (keys obj) = length columns \<and> list_all (\<lambda>c. c \<in> set (keys obj)) columns)"
  by (simp add: standard_keys_def serialize_def Let_def)

section \<open>Search sanitization (C8)\<close>
lemma sanitize_class:
  "sanitize s = map (\<lambda>c. if js_alnum c \<or> js_space c then c else 0x20) s"
  by (auto simp: sanitize_def js_word_def js_space_def js_alnum_def)

lemma sanitize_bang: "sanitize (js ''a!b'') = sanitize (js ''a b'')"
  by (simp add: sanitize_def js_def js_word_def js_alnum_def js_space_def)

text \<open>
  C8, as the code has it. The string handed to the FTS engine is the search string with
  every character outside \<open>[A-Za-z0-9\s]\<close> replaced by one space, the underscore among
  them, and every other character kept; the engine is consulted with it exactly when
  the search string does not have length 2; and a filter searching for \<open>a!b\<close> gives
  the result of the same filter searching for \<open>a b\<close>.
\<close>

theorem sanitize_replaces_outside_alnum_space:
  "sanitize s = map (\<lambda>c. if js_alnum c \<or> js_space c then c else 0x20) s
   \<and> (length s \<noteq> 2 \<longrightarrow>
        search_where env (f\<lparr>search := Some s\<rparr>)
          = (case fts_match env (sanitize s) of None \<Rightarrow> Inl FtsSyntaxError | Some m \<Rightarrow> Inr m))
   \<and> (length s = 2 \<longrightarrow> search_where env (f\<lparr>search := Some s\<rparr>) = Inr (name_like env s))
   \<and> query_filter env (f\<lparr>search := Some (js ''a!b'')\<rparr>) rows
       = query_filter env (f\<lparr>search := Some (js ''a b'')\<rparr>) rows"
proof -
  have q: "query_filter env (f\<lparr>search := Some (js ''a!b'')\<rparr>) rows
             = query_filter env (f\<lparr>search := Some (js ''a b'')\<rparr>) rows"
  proof -
    have b: "bound (f\<lparr>search := Some (js ''a!b'')\<rparr>) = bound (f\<lparr>search := Some (js ''a b'')\<rparr>)"
      using sanitize_bang by (simp add: bound_def js_def)
    show ?thesis
      unfolding query_filter_def b
      using sanitize_bang
      by (auto simp: search_where_def wheres_empty_def truthy_def js_def Let_def
               split: option.splits sum.splits)
  qed
  show ?thesis
    using q by (simp add: sanitize_class search_where_def)
qed

theorem sanitize_replaces_outside_alnum_space_witness:
  "sanitize (js ''a_b c'') = js ''a b c''
   \<and> search_where sample_env ((kinds_filter [1063])\<lparr>search := Some (js ''a_b c'')\<rparr>) = Inr (\<lambda>_. False)
   \<and> search_where sample_env ((kinds_filter [1063])\<lparr>search := Some (js ''a_'')\<rparr>)
       = Inr (name_like sample_env (js ''a_''))"
  using sanitize_replaces_outside_alnum_space [of "js ''a_b c''" sample_env "kinds_filter [1063]" "[]"]
    sanitize_replaces_outside_alnum_space [of "js ''a_''" sample_env "kinds_filter [1063]" "[]"]
  by (simp add: js_def js_alnum_def js_space_def sample_env_def)

text \<open>
  The claim as written keeps the underscore; the code replaces it.
\<close>

theorem sanitize_underscore_counterexample:
  "sanitize (js ''a_b'') = js ''a b'' \<and> sanitize_spec (js ''a_b'') = js ''a_b''"
  by (simp add: sanitize_def sanitize_spec_def js_def js_word_def js_alnum_def js_space_def)

section \<open>Validation and admission (C6, C5)\<close>

text \<open>
  C6. An event whose signature verifies is accepted exactly when its publisher has an
  entry in the allow-list and either the entry is the empty list, or the entry is not
  empty and: for kind 30063 the event has a d-tag that begins with one of the listed
  prefixes, for kind 32267 the event has a d-tag equal to one of the listed values (no
  condition for the other kinds). An event whose signature does not verify is not accepted.
\<close>

theorem validateEvent_accepts_iff:
  "(validateEvent env e = Inr True) =
     (verifyEvent env e \<and>
      (\<exists>allowed. authorized env (npubEncode env (pubkey e)) = Some allowed \<and>
         (allowed = [] \<or>
          (allowed \<noteq> [] \<and>
           (kind e = 30063 \<longrightarrow>
              (\<exists>d. getFirstTag (tags e) ''d'' = Some d \<and> (\<exists>p \<in> set allowed. prefix p d))) \<and>
           (kind e = 32267 \<longrightarrow>
              (\<exists>d. getFirstTag (tags e) ''d'' = Some d \<and> d \<in> set allowed))))))"
  by (auto simp: validateEvent_def Let_def list_ex_iff split: option.splits)

theorem validateEvent_accepts_iff_witness:
  "validateEvent sample_env (sample_event ''aa'' ''q'' 30063 1000 [[''d'', ''app.one'']]) = Inr True
   \<and> validateEvent sample_env (sample_event ''ab'' ''q'' 30063 1000 [[''d'', ''other'']]) \<noteq> Inr True
   \<and> validateEvent sample_env (sample_event ''ac'' ''q'' 32267 1000 [[''d'', ''dev.zapstore'']]) = Inr True
   \<and> validateEvent sample_env (sample_event ''ad'' ''q'' 32267 1000 [[''d'', ''dev.zapstore.x'']]) \<noteq> Inr True
   \<and> validateEvent sample_env (sample_event ''ae'' ''q'' 1063 1000 []) = Inr True
   \<and> validateEvent sample_env (sample_event ''af'' ''p'' 30063 1000 []) = Inr True
   \<and> validateEvent sample_env (sample_event ''ag'' ''r'' 1063 1000 []) \<noteq> Inr True"
  using validateEvent_accepts_iff [of sample_env "sample_event ''aa'' ''q'' 30063 1000 [[''d'', ''app.one'']]"]
    validateEvent_accepts_iff [of sample_env "sample_event ''ab'' ''q'' 30063 1000 [[''d'', ''other'']]"]
    validateEvent_accepts_iff [of sample_env "sample_event ''ac'' ''q'' 32267 1000 [[''d'', ''dev.zapstore'']]"]
    validateEvent_accepts_iff [of sample_env "sample_event ''ad'' ''q'' 32267 1000 [[''d'', ''dev.zapstore.x'']]"]
    validateEvent_accepts_iff [of sample_env "sample_event ''ae'' ''q'' 1063 1000 []"]
    validateEvent_accepts_iff [of sample_env "sample_event ''af'' ''p'' 30063 1000 []"]
    validateEvent_accepts_iff [of sample_env "sample_event ''ag'' ''r'' 1063 1000 []"]
  by (simp add: sample_env_def sample_event_def getFirstTag_def)

lemma admitted_iff:
  "admitted f = (\<exists>ks. kinds f = Some ks \<and> set ks \<inter> {1011, 1063, 30063, 32267, 30267} \<noteq> {})"
  by (auto simp: admitted_def allowed_kinds_def list_ex_iff split: option.splits)

text \<open>
  C5. When some filter of the set has no \<open>kinds\<close>, or \<open>kinds\<close> without any of 1011, 1063,
  30063, 32267, 30267, a request on a socket is answered by the one frame
  \<open>["CLOSED", reqId, ""]\<close> sent to that socket and the REST bridge gets the empty array;
  the store and the registry are as before, so nothing was queried, deleted or
  registered.
\<close>

theorem unadmitted_request_is_closed:
  assumes "f \<in> set filters"
      and "kinds f = None \<or> (\<exists>ks. kinds f = Some ks \<and> set ks \<inter> {1011, 1063, 30063, 32267, 30267} = {})"
  shows "handleRequest env (Some w) reqId filters existing st
           = (st, [(Send w, CLOSED reqId (Text ''''))], Done)
       \<and> handleRequest env None reqId filters existing st = (st, [], Returned [])"
proof -
  from assms(2) have "\<not> admitted f"
    by (auto simp: admitted_iff)
  with assms(1) have "\<not> list_all admitted filters"
    by (auto simp: list_all_iff)
  then show ?thesis
    by (simp add: handleRequest_def)
qed

theorem unadmitted_request_is_closed_witness:
  "handleRequest sample_env (Some ws1) ''s1'' [kinds_filter [30063], kinds_filter [1, 7]] None empty_relay
     = (empty_relay, [(Send ws1, CLOSED ''s1'' (Text ''''))], Done)
   \<and> handleRequest sample_env None '''' [kinds_filter [30063], kinds_filter [1, 7]] None empty_relay
     = (empty_relay, [], Returned [])"
  using unadmitted_request_is_closed [of "kinds_filter [1, 7]" "[kinds_filter [30063], kinds_filter [1, 7]]"
      sample_env ws1 "''s1''" None empty_relay]
    unadmitted_request_is_closed [of "kinds_filter [1, 7]" "[kinds_filter [30063], kinds_filter [1, 7]]"
      sample_env ws1 "''''" None empty_relay]
  by (simp add: kinds_filter_def)

section \<open>The registry (C10)\<close>

lemma digit_not_dash: "n < 10 \<Longrightarrow> ''0123456789'' ! n \<noteq> CHR ''-''"
proof -
  assume "n < 10"
  then have "n \<in> {0,1,2,3,4,5,6,7,8,9}" by auto
  then show ?thesis by auto
qed

lemma dash_notin_dec [simp]: "CHR ''-'' \<notin> set (dec n)"
proof (induction n rule: dec.induct)
  case (1 n)
  show ?case
  proof (cases "n < 10")
    case True
    then show ?thesis
      using digit_not_dash [of n] by (subst dec.simps) auto
  next
    case False
    have "n mod 10 < 10" by simp
    then have "''0123456789'' ! (n mod 10) \<noteq> CHR ''-''" by (rule digit_not_dash)
    with 1 False show ?thesis
      by (subst dec.simps) auto
  qed
qed

lemma prefix_before_sep:
  assumes "z \<notin> set xs"
  shows "prefix xs (ys @ z # zs) = prefix xs ys"
proof
  assume "prefix xs (ys @ z # zs)"
  then consider "prefix xs ys" | us where "xs = ys @ us" "prefix us (z # zs)"
    by (auto simp: prefix_append)
  then show "prefix xs ys"
  proof cases
    case 1 then show ?thesis .
  next
    case 2
    with assms have "us = []" by (cases us) auto
    with 2 show ?thesis by simp
  qed
next
  assume "prefix xs ys" then show "prefix xs (ys @ z # zs)" by (simp add: prefix_prefix)
qed

lemma owned_by_live_iff:
  "owned_by_live live st =
     ((\<forall>k \<in> fst ` set (subIds st). \<exists>w \<in> set live. owns st w k)
      \<and> (\<forall>t \<in> set (topics st). prefix (dec (createdAt (fst t)) @ ''-'') (snd t)))"
  by (force simp: owned_by_live_def list_all_iff list_ex_iff)

lemma keys_update: "fst ` set (AList.update k v al) = insert k (fst ` set al)"
  by (induction al) auto

lemma keys_delete: "fst ` set (AList.delete k al) \<subseteq> fst ` set al"
  by (induction al) auto

lemma handleRequest_existing:
  assumes "s \<noteq> []" "handleRequest env ws reqId fs (Some s) st = (st', out)"
  shows "subIds st' = subIds st \<and> topics st' = topics st \<and> in_txn st' = in_txn st"
  using assms
  by (auto simp: handleRequest_def truthy_def Let_def split: if_splits option.splits sum.splits)

lemma handleRequest_rest:
  assumes "handleRequest env None reqId fs existing st = (st', out)"
  shows "subIds st' = subIds st \<and> topics st' = topics st \<and> in_txn st' = in_txn st"
  using assms
  by (auto simp: handleRequest_def Let_def split: if_splits option.splits sum.splits)

lemma handleRequest_subIds:
  assumes "handleRequest env (Some w) reqId fs None st = (st', out)"
  shows "(subIds st' = subIds st \<and> topics st' = topics st)
       \<or> (subIds st' = AList.update (dec (createdAt w) @ ''-'' @ reqId) fs (subIds st)
          \<and> topics st' = topics st @ [(w, dec (createdAt w) @ ''-'' @ reqId)])"
  using assms
  by (auto simp: handleRequest_def truthy_def Let_def split: if_splits option.splits sum.splits)

lemma handleRequest_keys:
  assumes "handleRequest env (Some w) reqId fs None st = (st', out)"
  shows "fst ` set (subIds st') \<subseteq> insert (dec (createdAt w) @ ''-'' @ reqId) (fst ` set (subIds st))"
proof -
  from handleRequest_subIds [OF assms]
  have "fst ` set (subIds st') = fst ` set (subIds st)
      \<or> fst ` set (subIds st') = insert (dec (createdAt w) @ ''-'' @ reqId) (fst ` set (subIds st))"
    by (metis keys_update)
  then show ?thesis by blast
qed

lemma handleRequest_topics:
  assumes "handleRequest env (Some w) reqId fs None st = (st', out)"
  shows "set (topics st) \<subseteq> set (topics st')
       \<and> set (topics st') \<subseteq> insert (w, dec (createdAt w) @ ''-'' @ reqId) (set (topics st))
       \<and> (dec (createdAt w) @ ''-'' @ reqId \<in> fst ` set (subIds st')
            \<longrightarrow> dec (createdAt w) @ ''-'' @ reqId \<in> fst ` set (subIds st)
              \<or> (w, dec (createdAt w) @ ''-'' @ reqId) \<in> set (topics st'))"
  using handleRequest_subIds [OF assms] by auto

lemma fanout_registry:
  assumes "\<forall>k \<in> fst ` set entries. k \<noteq> []" "fanout env w p entries st = (st', frames)"
  shows "subIds st' = subIds st \<and> topics st' = topics st \<and> in_txn st' = in_txn st"
  using assms
proof (induction entries arbitrary: st st' frames)
  case Nil
  then show ?case by simp
next
  case (Cons a entries)
  obtain subId fs where a: "a = (subId, fs)" by (cases a)
  obtain st1 fr1 r1 where h: "handleRequest env (Some w) (reqId_of subId)
      (map (\<lambda>f. f\<lparr>ids := Some [id' p]\<rparr>) fs) (Some subId) st = (st1, fr1, r1)"
    by (metis prod_cases3)
  obtain st2 fr2 where f: "fanout env w p entries st1 = (st2, fr2)"
    by (cases "fanout env w p entries st1")
  from Cons.prems a have ne: "subId \<noteq> []" by auto
  from Cons.prems(2) a h f have "st' = st2" by (simp add: Let_def)
  moreover have "subIds st2 = subIds st1 \<and> topics st2 = topics st1 \<and> in_txn st2 = in_txn st1"
    using Cons.IH [OF _ f] Cons.prems(1) by auto
  moreover have "subIds st1 = subIds st \<and> topics st1 = topics st \<and> in_txn st1 = in_txn st"
    using handleRequest_existing [OF ne h] .
  ultimately show ?case by simp
qed

lemma write_event_registry:
  "write_event env p i st = Inr st' \<Longrightarrow> subIds st' = subIds st \<and> topics st' = topics st"
  "write_event env p i st = Inl (err, st') \<Longrightarrow> subIds st' = subIds st \<and> topics st' = topics st \<and> events st' = events st"
  by (auto simp: write_event_def split: if_splits option.splits sum.splits)

lemma handleEvent_registry:
  assumes "\<forall>k \<in> fst ` set (subIds st). k \<noteq> []" "handleEvent env ws p st = (st', out)"
  shows "subIds st' = subIds st \<and> topics st' = topics st"
proof (cases "\<exists>w st1. ws = Some w \<and> validateEvent env p = Inr True \<and> \<not> exists_id (id' p) (events st)
     \<and> write_event env p (idToRemove env p (events st)) st = Inr st1")
  case True
  then obtain w st1 where t: "ws = Some w" "validateEvent env p = Inr True" "\<not> exists_id (id' p) (events st)"
    "write_event env p (idToRemove env p (events st)) st = Inr st1"
    by blast
  obtain st2 fr where f: "fanout env w p (subIds st1) st1 = (st2, fr)"
    by (cases "fanout env w p (subIds st1) st1")
  have s1: "subIds st1 = subIds st \<and> topics st1 = topics st" using write_event_registry(1) [OF t(4)] by simp
  from assms(2) t f have "st' = st2"
    by (simp add: handleEvent_def Let_def)
  moreover have "subIds st2 = subIds st1 \<and> topics st2 = topics st1"
    using fanout_registry [OF _ f] assms(1) s1 by simp
  ultimately show ?thesis using s1 by simp
next
  case False
  with assms(2) show ?thesis
    by (auto simp: handleEvent_def Let_def dest: write_event_registry
             split: if_splits option.splits sum.splits prod.splits)
qed

lemma owned_keys_nonempty:
  assumes "owned_by_live live st"
  shows "\<forall>k \<in> fst ` set (subIds st). k \<noteq> []"
proof
  fix k assume "k \<in> fst ` set (subIds st)"
  with assms obtain w where "(w, k) \<in> set (topics st)"
    by (auto simp: owned_by_live_iff owns_def)
  with assms have "prefix (dec (createdAt w) @ ''-'') k"
    by (force simp: owned_by_live_iff)
  then show "k \<noteq> []" by auto
qed

lemma owns_startsWith:
  assumes "owned_by_live live st" "owns st w k"
  shows "prefix (dec (createdAt w) @ ''-'') k"
  using assms by (force simp: owned_by_live_iff owns_def)

lemma startsWith_owned:
  assumes "prefix (dec (createdAt w') @ ''-'') k" "prefix (dec (createdAt w)) k"
  shows "prefix (dec (createdAt w)) (dec (createdAt w'))"
proof -
  from assms(1) obtain r where k: "k = dec (createdAt w') @ CHR ''-'' # r"
    by (auto simp: prefix_def)
  with assms(2) show ?thesis
    by (simp add: prefix_before_sep)
qed

lemma owned_unchanged:
  assumes "owned_by_live live st" "subIds st' = subIds st" "topics st' = topics st"
  shows "owned_by_live live st'"
  using assms by (simp add: owned_by_live_iff owns_def)

lemma server_step_owned:
  assumes "owned_by_live live st" "server_step env sent (live, st) (live', st')"
  shows "owned_by_live live' st'"
  using assms(2)
proof (cases rule: server_step.cases)
  case (upgrade w)
  with assms(1) show ?thesis by (auto simp: owned_by_live_iff)
next
  case (message w m out)
  have ne: "\<forall>k \<in> fst ` set (subIds st). k \<noteq> []"
    using assms(1) by (rule owned_keys_nonempty)
  show ?thesis
  proof (cases m)
    case (ReqMsg payload filters)
    with message have h: "handleRequest env (Some w) payload filters None st = (st', out)" by simp
    let ?k = "dec (createdAt w) @ ''-'' @ payload"
    note t = handleRequest_topics [OF h]
    show ?thesis
      unfolding owned_by_live_iff
    proof
      show "\<forall>k\<in>fst ` set (subIds st'). \<exists>w\<in>set live'. owns st' w k"
      proof
        fix k assume k: "k \<in> fst ` set (subIds st')"
        show "\<exists>w\<in>set live'. owns st' w k"
        proof (cases "k \<in> fst ` set (subIds st)")
          case True
          with assms(1) obtain w' where "w' \<in> set live" "(w', k) \<in> set (topics st)"
            by (auto simp: owned_by_live_iff owns_def)
          with t message show ?thesis by (auto simp: owns_def)
        next
          case False
          with k handleRequest_keys [OF h] have "k = ?k" by auto
          with k False t have "(w, k) \<in> set (topics st')" by simp
          with message show ?thesis by (auto simp: owns_def)
        qed
      qed
    next
      show "\<forall>t\<in>set (topics st'). prefix (dec (createdAt (fst t)) @ ''-'') (snd t)"
      proof
        fix x assume "x \<in> set (topics st')"
        with t have "x = (w, ?k) \<or> x \<in> set (topics st)" by auto
        then show "prefix (dec (createdAt (fst x)) @ ''-'') (snd x)"
        proof
          assume "x = (w, ?k)" then show ?thesis by simp
        next
          assume "x \<in> set (topics st)"
          with assms(1) show ?thesis by (simp add: owned_by_live_iff)
        qed
      qed
    qed
  next
    case (EventMsg payload)
    with message have "handleEvent env (Some w) payload st = (st', out)" by simp
    from handleEvent_registry [OF ne this] assms(1) message show ?thesis
      by (simp add: owned_unchanged)
  next
    case (CloseMsg payload)
    with message have s: "subIds st' = AList.delete (dec (createdAt w) @ ''-'' @ payload) (subIds st)"
      and tp: "topics st' = topics st"
      by (auto simp: handleClose_def)
    from s keys_delete [of "dec (createdAt w) @ ''-'' @ payload" "subIds st"]
    have sub: "fst ` set (subIds st') \<subseteq> fst ` set (subIds st)" by simp
    have "\<forall>k\<in>fst ` set (subIds st'). \<exists>w\<in>set live. owns st' w k"
    proof
      fix k assume "k \<in> fst ` set (subIds st')"
      with sub have "k \<in> fst ` set (subIds st)" by (rule subsetD)
      with assms(1) obtain w' where "w' \<in> set live" "(w', k) \<in> set (topics st)"
        by (auto simp: owned_by_live_iff owns_def)
      with tp show "\<exists>w\<in>set live. owns st' w k" by (auto simp: owns_def)
    qed
    moreover have "\<forall>t\<in>set (topics st'). prefix (dec (createdAt (fst t)) @ ''-'') (snd t)"
      using assms(1) tp by (simp add: owned_by_live_iff)
    ultimately show ?thesis
      using message by (simp add: owned_by_live_iff)
  next
    case (OtherMsg t)
    with message assms(1) show ?thesis
      by (auto simp: handleError_def)
  qed
next
  case (closed w)
  show ?thesis
    unfolding owned_by_live_iff
  proof
    show "\<forall>k\<in>fst ` set (subIds st'). \<exists>w\<in>set live'. owns st' w k"
    proof
      fix k assume "k \<in> fst ` set (subIds st')"
      with closed have k: "k \<in> fst ` set (subIds st)" "\<not> prefix (dec (createdAt w)) k"
        by (auto simp: websocket_close_def)
      with assms(1) obtain w' where w': "w' \<in> set live" "owns st w' k"
        by (auto simp: owned_by_live_iff)
      from owns_startsWith [OF assms(1) w'(2)] have "prefix (dec (createdAt w')) k"
        by (rule append_prefixD)
      with k(2) have "w' \<noteq> w" by auto
      with w' closed show "\<exists>w\<in>set live'. owns st' w k"
        by (auto simp: owns_def websocket_close_def)
    qed
  next
    from closed assms(1)
    show "\<forall>t\<in>set (topics st'). prefix (dec (createdAt (fst t)) @ ''-'') (snd t)"
      by (auto simp: owned_by_live_iff websocket_close_def)
  qed
next
  case (rest_event payload out)
  have ne: "\<forall>k \<in> fst ` set (subIds st). k \<noteq> []"
    using assms(1) by (rule owned_keys_nonempty)
  from rest_event have "handleEvent env None payload st = (st', out)" by simp
  from handleEvent_registry [OF ne this] assms(1) rest_event show ?thesis
    by (simp add: owned_unchanged)
next
  case (rest_request body out)
  from rest_request have "handleRequest env None [] body None st = (st', out)" by simp
  from handleRequest_rest [OF this] assms(1) rest_request show ?thesis
    by (simp add: owned_unchanged)
qed

lemma close_removes_own:
  assumes "owned_by_live live st"
      and "\<forall>w \<in> set live. prefix (dec (createdAt ws)) (dec (createdAt w)) \<longrightarrow> w = ws"
  shows "filter (\<lambda>(subId, _). \<not> prefix (dec (createdAt ws)) subId) (subIds st)
       = filter (\<lambda>(subId, _). \<not> owns st ws subId) (subIds st)"
proof (rule filter_cong [OF refl])
  fix x assume x: "x \<in> set (subIds st)"
  obtain k fs where kf: "x = (k, fs)" by (cases x)
  with x assms(1) obtain w' where w': "w' \<in> set live" "owns st w' k"
    by (force simp: owned_by_live_iff)
  have "prefix (dec (createdAt ws)) k = owns st ws k"
  proof
    assume "prefix (dec (createdAt ws)) k"
    from startsWith_owned [OF owns_startsWith [OF assms(1) w'(2)] this] assms(2) w'(1)
    have "w' = ws" by auto
    with w'(2) show "owns st ws k" by simp
  next
    assume "owns st ws k"
    from owns_startsWith [OF assms(1) this] show "prefix (dec (createdAt ws)) k"
      by (rule append_prefixD)
  qed
  with kf show "(case x of (subId, _) \<Rightarrow> \<not> prefix (dec (createdAt ws)) subId)
           = (case x of (subId, _) \<Rightarrow> \<not> owns st ws subId)" by simp
qed

text \<open>The registry after socket \<open>w\<close> has subscribed as \<open>s1\<close>, \<open>createdAt\<close> being 17.\<close>

lemma subscribe_17:
  assumes "createdAt w = 17"
  shows "handleRequest sample_env (Some w) ''s1'' [kinds_filter [1063]] None empty_relay
           = (empty_relay\<lparr>topics := [(w, ''17-s1'')], subIds := [(''17-s1'', [kinds_filter [1063]])]\<rparr>,
              [(Publish ''17-s1'', EOSE ''s1'')], Done)"
  using assms
  by (simp add: handleRequest_def admitted_def allowed_kinds_def kinds_filter_def truthy_def
        empty_relay_def dec.simps query_filter_def wheres_empty_def search_where_def
        engine_order_def sample_env_def Let_def)
text \<open>
  C10, as the code has it. Closing a socket removes exactly the registry entries whose
  key starts with the decimal digits of its \<open>createdAt\<close>. When the invariant of the
  registry holds and no other open socket has a \<open>createdAt\<close> whose digits start with
  those of the closing one (neither a longer number such as 174 for 17, nor the same
  number on another socket), these are exactly the entries the closing socket
  subscribed to; with sockets 17 and 174 open, closing 17 also removes the entry of 174.
  The invariant holds of the empty relay, and every step of the server keeps it.
\<close>

theorem close_removes_keys_starting_with_id:
  "subIds (websocket_close ws st)
     = filter (\<lambda>(subId, _). \<not> prefix (dec (createdAt ws)) subId) (subIds st)
   \<and> (owned_by_live live st
        \<and> (\<forall>w \<in> set live. prefix (dec (createdAt ws)) (dec (createdAt w)) \<longrightarrow> w = ws)
        \<longrightarrow> subIds (websocket_close ws st) = filter (\<lambda>(subId, _). \<not> owns st ws subId) (subIds st))
   \<and> (let st0 = empty_relay\<lparr>subIds := [(''174-a'', []), (''17-b'', [])],
                             topics := [(ws2, ''174-a''), (ws1, ''17-b'')]\<rparr>
      in owned_by_live [ws1, ws2] st0
         \<and> subIds (websocket_close ws1 st0) = []
         \<and> filter (\<lambda>(subId, _). \<not> owns st0 ws1 subId) (subIds st0) = [(''174-a'', [])])
   \<and> owned_by_live live empty_relay
   \<and> (owned_by_live live st \<and> server_step env sent (live, st) (live', st') \<longrightarrow> owned_by_live live' st')"
proof -
  have a: "subIds (websocket_close ws st)
     = filter (\<lambda>(subId, _). \<not> prefix (dec (createdAt ws)) subId) (subIds st)"
    by (simp add: websocket_close_def)
  have b: "(let st0 = empty_relay\<lparr>subIds := [(''174-a'', []), (''17-b'', [])],
                             topics := [(ws2, ''174-a''), (ws1, ''17-b'')]\<rparr>
      in owned_by_live [ws1, ws2] st0
         \<and> subIds (websocket_close ws1 st0) = []
         \<and> filter (\<lambda>(subId, _). \<not> owns st0 ws1 subId) (subIds st0) = [(''174-a'', [])])"
    by (simp add: websocket_close_def owned_by_live_def owns_def ws1_def ws2_def empty_relay_def
          dec.simps Let_def)
  have d: "owned_by_live live st
        \<and> (\<forall>w \<in> set live. prefix (dec (createdAt ws)) (dec (createdAt w)) \<longrightarrow> w = ws)
        \<longrightarrow> subIds (websocket_close ws st) = filter (\<lambda>(subId, _). \<not> owns st ws subId) (subIds st)"
    using a close_removes_own [of live st ws] by simp
  have i: "owned_by_live live empty_relay"
    by (simp add: owned_by_live_def empty_relay_def)
  have e: "owned_by_live live st \<and> server_step env sent (live, st) (live', st') \<longrightarrow> owned_by_live live' st'"
    using server_step_owned by blast
  from a d b i e show ?thesis by (intro conjI)
qed

theorem close_removes_keys_starting_with_id_witness:
  "subIds (websocket_close ws1 (empty_relay\<lparr>subIds := [(''17-s1'', []), (''23-s1'', []), (''17-s2'', [])],
       topics := [(ws1, ''17-s1''), (ws3, ''23-s1''), (ws1, ''17-s2'')]\<rparr>))
     = [(''23-s1'', [])]
   \<and> owned_by_live [ws1, ws3] (empty_relay\<lparr>subIds := [(''17-s1'', []), (''23-s1'', []), (''17-s2'', [])],
       topics := [(ws1, ''17-s1''), (ws3, ''23-s1''), (ws1, ''17-s2'')]\<rparr>)
   \<and> server_step sample_env (\<lambda>_. True)
       ([ws1, ws3], empty_relay\<lparr>subIds := [(''17-s1'', []), (''23-s1'', []), (''17-s2'', [])],
          topics := [(ws1, ''17-s1''), (ws3, ''23-s1''), (ws1, ''17-s2'')]\<rparr>)
       ([ws3], websocket_close ws1 (empty_relay\<lparr>subIds := [(''17-s1'', []), (''23-s1'', []), (''17-s2'', [])],
          topics := [(ws1, ''17-s1''), (ws3, ''23-s1''), (ws1, ''17-s2'')]\<rparr>))
   \<and> owned_by_live [ws3]
       (websocket_close ws1 (empty_relay\<lparr>subIds := [(''17-s1'', []), (''23-s1'', []), (''17-s2'', [])],
          topics := [(ws1, ''17-s1''), (ws3, ''23-s1''), (ws1, ''17-s2'')]\<rparr>))"
proof -
  let ?st = "empty_relay\<lparr>subIds := [(''17-s1'', []), (''23-s1'', []), (''17-s2'', [])],
       topics := [(ws1, ''17-s1''), (ws3, ''23-s1''), (ws1, ''17-s2'')]\<rparr>"
  have o: "owned_by_live [ws1, ws3] ?st"
    by (simp add: owned_by_live_def owns_def ws1_def ws3_def empty_relay_def dec.simps)
  have p: "\<forall>w \<in> set [ws1, ws3]. prefix (dec (createdAt ws1)) (dec (createdAt w)) \<longrightarrow> w = ws1"
    by (simp add: ws1_def ws3_def dec.simps)
  have "ws1 \<in> set [ws1, ws3]" by simp
  from server_step.closed [OF this, of sample_env "\<lambda>_. True" ?st]
  have s: "server_step sample_env (\<lambda>_. True) ([ws1, ws3], ?st) ([ws3], websocket_close ws1 ?st)"
    by (simp add: ws1_def ws3_def)
  have f: "filter (\<lambda>(subId, _). \<not> owns ?st ws1 subId) (subIds ?st) = [(''23-s1'', [])]"
    by (simp add: owns_def ws1_def ws3_def empty_relay_def)
  note t = close_removes_keys_starting_with_id [of ws1 ?st "[ws1, ws3]" sample_env "\<lambda>_. True" "[ws3]"
      "websocket_close ws1 ?st"]
  from t o p have "subIds (websocket_close ws1 ?st) = filter (\<lambda>(subId, _). \<not> owns ?st ws1 subId) (subIds ?st)"
    by blast
  with f have r1: "subIds (websocket_close ws1 ?st) = [(''23-s1'', [])]"
    by simp
  from t o s have r2: "owned_by_live [ws3] (websocket_close ws1 ?st)"
    by blast
  from r1 o s r2 show ?thesis by (intro conjI)
qed

text \<open>
  The claim asks only that no open socket's id be a proper prefix of another's. Two
  sockets opened in the same millisecond have the same id, so neither is a proper prefix
  of the other; \<open>ws4\<close> subscribes, \<open>ws1\<close> has subscribed to nothing, and closing \<open>ws1\<close>
  removes the subscription of \<open>ws4\<close>, which stays open.
\<close>

theorem close_same_createdAt_counterexample:
  "ws1 \<noteq> ws4
   \<and> \<not> strict_prefix (dec (createdAt ws1)) (dec (createdAt ws4))
   \<and> \<not> strict_prefix (dec (createdAt ws4)) (dec (createdAt ws1))
   \<and> (let st = fst (handleRequest sample_env (Some ws4) ''s1'' [kinds_filter [1063]] None empty_relay)
      in subIds st = [(''17-s1'', [kinds_filter [1063]])]
         \<and> topics st = [(ws4, ''17-s1'')]
         \<and> owned_by_live [ws1, ws4] st
         \<and> filter (\<lambda>(subId, _). \<not> owns st ws1 subId) (subIds st) = [(''17-s1'', [kinds_filter [1063]])]
         \<and> subIds (websocket_close ws1 st) = []
         \<and> topics (websocket_close ws1 st) = [(ws4, ''17-s1'')])"
proof -
  have c: "createdAt ws4 = 17" by (simp add: ws4_def)
  show ?thesis
    unfolding Let_def subscribe_17 [OF c]
    by (simp add: ws1_def ws4_def owned_by_live_def owns_def websocket_close_def empty_relay_def
          dec.simps)
qed

section \<open>Queries and the store\<close>

lemma delete_ids_Nil [simp]: "delete_ids [] rows = rows"
  by (simp add: delete_ids_def)

lemma set_delete_ids: "set (delete_ids is rows) = {row \<in> set rows. id' (snd row) \<notin> set is}"
  by (auto simp: delete_ids_def)

lemma delivered_events [simp]:
  "delivered (map (\<lambda>e. (d, EVENT q e)) evs @ rest) r = evs @ delivered rest r"
  by (induction evs) (simp_all add: delivered_def)

lemma delivered_events' [simp]:
  "delivered (map (\<lambda>e. (d, EVENT q e)) evs) r = evs @ delivered [] r"
  using delivered_events [of d q evs "[]" r] by simp

lemma delivered_other [simp]:
  "delivered [] Done = []"
  "delivered [] (Thrown err) = []"
  "delivered [] (Returned evs) = evs"
  "delivered [(d, EOSE q)] Done = []"
  "delivered [(d, CLOSED q t)] Done = []"
  by (simp_all add: delivered_def)

text \<open>What a request hands back and what it deletes, in terms of the queries.\<close>

lemma handleRequest_delivered:
  assumes "handleRequest env ws reqId fs existing st = (st', frames, r)"
  shows "delivered frames r
           = (if list_all admitted fs
              then (case run_queries env fs (events st) of Inl _ \<Rightarrow> [] | Inr evs \<Rightarrow> evs) else [])"
    and "events st' = delete_ids (map id' (filter ephemeral (delivered frames r))) (events st)"
  using assms
  by (auto simp: handleRequest_def Let_def split: if_splits option.splits sum.splits)

lemma search_where_ids [simp]: "search_where env (f\<lparr>ids := i\<rparr>) = search_where env f"
  by (simp add: search_where_def)

lemma engine_order_mset [simp]: "mset (engine_order plan rows) = mset rows"
  by (simp add: engine_order_def Let_def)

lemma engine_order_set [simp]: "set (engine_order plan rows) = set rows"
  using engine_order_mset [of plan rows] by (rule mset_eq_setD)

lemma engine_order_distinct [simp]:
  "distinct (map f (engine_order plan rows)) = distinct (map f rows)"
proof -
  have "mset (map f (engine_order plan rows)) = mset (map f rows)" by simp
  then show ?thesis by (rule mset_eq_imp_distinct_iff)
qed

lemma engine_order_id [simp]: "engine_order (\<lambda>rows. rows) rows = rows"
  by (simp add: engine_order_def)

lemma query_filter_sound:
  assumes "query_filter env f rows = Inr evs" "e \<in> set evs"
  shows "e \<in> snd ` set rows \<and> (\<exists>sw. search_where env f = Inr sw \<and> row_matches f sw e) \<and> \<not> wheres_empty f"
proof -
  from assms(1) obtain sw where sw: "search_where env f = Inr sw" and ne: "\<not> wheres_empty f"
    by (auto simp: query_filter_def split: if_splits sum.splits)
  let ?m = "filter (row_matches f sw) (map snd (engine_order (scan env (bound f)) rows))"
  let ?o = "if truthy (search f) then ?m else sort_key (\<lambda>e. - created_at e) ?m"
  from assms(1) sw ne have "set evs \<subseteq> set ?o"
    by (auto simp: query_filter_def Let_def split: option.splits if_splits dest: in_set_takeD)
  with assms(2) have "e \<in> set ?m" by (auto split: if_splits)
  then have "e \<in> snd ` set rows \<and> row_matches f sw e" by simp
  with sw ne show ?thesis by auto
qed

lemma query_filter_complete:
  assumes "query_filter env f rows = Inr evs" "limit f = None"
      and "search_where env f = Inr sw" "row_matches f sw e" "e \<in> snd ` set rows"
  shows "e \<in> set evs"
  using assms
  by (force simp: query_filter_def Let_def split: if_splits)

lemma run_queries_sound:
  assumes "run_queries env fs rows = Inr evs" "e \<in> set evs"
  shows "\<exists>f \<in> set fs. \<exists>r. query_filter env f rows = Inr r \<and> e \<in> set r"
  using assms
  by (induction fs arbitrary: evs) (auto split: sum.splits)

lemma run_queries_all:
  assumes "run_queries env fs rows = Inr evs" "f \<in> set fs"
  shows "\<exists>r. query_filter env f rows = Inr r \<and> set r \<subseteq> set evs"
  using assms
proof (induction fs arbitrary: evs)
  case Nil
  then show ?case by simp
next
  case (Cons a fs)
  from Cons.prems(1) obtain r rs where r: "query_filter env a rows = Inr r"
    "run_queries env fs rows = Inr rs" "evs = r @ rs"
    by (auto split: sum.splits)
  show ?case
  proof (cases "f = a")
    case True
    with r show ?thesis by auto
  next
    case False
    with Cons.prems(2) have "f \<in> set fs" by simp
    from Cons.IH [OF r(2) this] r(3) show ?thesis by auto
  qed
qed

lemma run_queries_rows:
  assumes "run_queries env fs rows = Inr evs"
  shows "set evs \<subseteq> snd ` set rows"
  using run_queries_sound [OF assms] query_filter_sound by blast

section \<open>Ephemeral events (C7)\<close>

lemma count_list_distinct: "distinct xs \<Longrightarrow> x \<in> set xs \<Longrightarrow> count_list xs x = 1"
  by (induction xs) auto

lemma query_filter_distinct:
  assumes "query_filter env f rows = Inr r" "distinct (map snd rows)"
  shows "distinct r"
  using assms
  by (auto simp: query_filter_def Let_def split: if_splits sum.splits option.splits)

lemma distinct_rows_of_ids:
  assumes "distinct (map (\<lambda>row. id' (snd row)) rows)"
  shows "distinct (map snd rows)"
proof -
  have "map (\<lambda>row. id' (snd row)) rows = map id' (map snd rows)" by simp
  with assms show ?thesis by (metis distinct_map)
qed

text \<open>
  C7, as the code has it. When a request (on a socket or over the REST bridge) has
  handed back an event of an ephemeral kind, no row with that event's id is left in the
  store, and the same request made again does not hand it back. If everything the first
  request handed back was ephemeral and no filter has a \<open>limit\<close>, the second request
  hands back nothing. With a single filter over a store of distinct ids the first
  request hands the event back exactly once.
\<close>

theorem ephemeral_deleted_once_returned:
  assumes "handleRequest env ws reqId fs existing st = (st1, frames1, r1)"
      and "e \<in> set (delivered frames1 r1)" and "ephemeral e"
      and "handleRequest env ws reqId fs existing st1 = (st2, frames2, r2)"
  shows "\<not> exists_id (id' e) (events st1)
       \<and> (\<forall>x \<in> set (delivered frames2 r2). id' x \<noteq> id' e)
       \<and> ((\<forall>x \<in> set (delivered frames1 r1). ephemeral x) \<and> (\<forall>f \<in> set fs. limit f = None)
            \<longrightarrow> delivered frames2 r2 = [])
       \<and> (length fs = 1 \<and> distinct (map (\<lambda>row. id' (snd row)) (events st))
            \<longrightarrow> count_list (delivered frames1 r1) e = 1)"
proof -
  let ?D = "map id' (filter ephemeral (delivered frames1 r1))"
  note d1 = handleRequest_delivered [OF assms(1)]
  note d2 = handleRequest_delivered [OF assms(4)]
  from assms(2,3) have inD: "id' e \<in> set ?D" by auto
  have gone: "\<forall>row \<in> set (events st1). id' (snd row) \<notin> set ?D"
    using d1(2) by (simp add: set_delete_ids)
  have adm: "list_all admitted fs"
    using assms(2) d1(1) by (cases "list_all admitted fs") auto
  have "\<exists>evs1. run_queries env fs (events st) = Inr evs1"
    using assms(2) d1(1) adm by (cases "run_queries env fs (events st)") auto
  then obtain evs1 where "run_queries env fs (events st) = Inr evs1" ..
  with adm d1(1) have evs1: "list_all admitted fs"
    "run_queries env fs (events st) = Inr evs1" "delivered frames1 r1 = evs1"
    by simp_all
  have rows2: "set (delivered frames2 r2) \<subseteq> snd ` set (events st1)"
  proof (cases "run_queries env fs (events st1)")
    case (Inl err)
    have "delivered frames2 r2 = []"
      using d2(1) Inl by (cases "list_all admitted fs") simp_all
    then show ?thesis by simp
  next
    case (Inr evs2)
    from run_queries_rows [OF Inr] d2(1) Inr show ?thesis
      by (cases "list_all admitted fs") auto
  qed
  have a: "\<not> exists_id (id' e) (events st1)"
    using gone inD by (auto simp: exists_id_def list_ex_iff)
  have b: "\<forall>x \<in> set (delivered frames2 r2). id' x \<noteq> id' e"
  proof
    fix x assume "x \<in> set (delivered frames2 r2)"
    with rows2 obtain row where "row \<in> set (events st1)" "x = snd row" by auto
    with gone inD show "id' x \<noteq> id' e" by metis
  qed
  have c: "(\<forall>x \<in> set (delivered frames1 r1). ephemeral x) \<and> (\<forall>f \<in> set fs. limit f = None)
            \<longrightarrow> delivered frames2 r2 = []"
  proof
    assume h: "(\<forall>x \<in> set (delivered frames1 r1). ephemeral x) \<and> (\<forall>f \<in> set fs. limit f = None)"
    show "delivered frames2 r2 = []"
    proof (rule ccontr)
      assume "delivered frames2 r2 \<noteq> []"
      then obtain x where x: "x \<in> set (delivered frames2 r2)" by (cases "delivered frames2 r2") auto
      have "\<exists>evs2. run_queries env fs (events st1) = Inr evs2 \<and> x \<in> set evs2"
        using x d2(1)
        by (cases "list_all admitted fs"; cases "run_queries env fs (events st1)") auto
      then obtain evs2 where evs2: "run_queries env fs (events st1) = Inr evs2" "x \<in> set evs2"
        by blast
      from run_queries_sound [OF evs2] obtain f r where f: "f \<in> set fs"
        "query_filter env f (events st1) = Inr r" "x \<in> set r" by blast
      from query_filter_sound [OF f(2,3)] obtain sw where sw: "x \<in> snd ` set (events st1)"
        "search_where env f = Inr sw" "row_matches f sw x" by blast
      from sw(1) d1(2) have xin: "x \<in> snd ` set (events st)" by (auto simp: set_delete_ids)
      from run_queries_all [OF evs1(2) f(1)] obtain r' where r': "query_filter env f (events st) = Inr r'"
        "set r' \<subseteq> set evs1" by blast
      from h f(1) have "limit f = None" by blast
      from query_filter_complete [OF r'(1) this sw(2,3) xin] r'(2) evs1(3)
      have "x \<in> set (delivered frames1 r1)" by auto
      with h have "id' x \<in> set ?D" by auto
      moreover from sw(1) gone have "id' x \<notin> set ?D" by auto
      ultimately show False by contradiction
    qed
  qed
  have d: "length fs = 1 \<and> distinct (map (\<lambda>row. id' (snd row)) (events st))
            \<longrightarrow> count_list (delivered frames1 r1) e = 1"
  proof
    assume h: "length fs = 1 \<and> distinct (map (\<lambda>row. id' (snd row)) (events st))"
    then obtain f where f: "fs = [f]" by (cases fs) auto
    with evs1 have "query_filter env f (events st) = Inr evs1" by (auto split: sum.splits)
    from query_filter_distinct [OF this] h have "distinct evs1" by (simp add: distinct_rows_of_ids)
    with assms(2) evs1(3) show "count_list (delivered frames1 r1) e = 1"
      by (simp add: count_list_distinct)
  qed
  from a b c d show ?thesis by (intro conjI)
qed

lemmas request_eval =
  handleRequest_def run_queries.simps query_filter_def search_where_def row_matches_def
  wheres_empty_def admitted_def allowed_kinds_def in_list_def truthy_def ephemeral_def
  delete_ids_def kinds_filter_def sample_event_def sample_env_def empty_relay_def Let_def

theorem ephemeral_deleted_once_returned_witness:
  "handleRequest sample_env None '''' [kinds_filter [1063, 20000]] None
       (empty_relay\<lparr>events := [(1, sample_event ''ee'' ''p'' 20000 1000 [])]\<rparr>)
     = (empty_relay, [], Returned [sample_event ''ee'' ''p'' 20000 1000 []])
   \<and> ephemeral (sample_event ''ee'' ''p'' 20000 1000 [])
   \<and> handleRequest sample_env None '''' [kinds_filter [1063, 20000]] None empty_relay
     = (empty_relay, [], Returned [])
   \<and> \<not> exists_id ''ee'' (events empty_relay)
   \<and> delivered [] (Returned []) = []
   \<and> count_list (delivered [] (Returned [sample_event ''ee'' ''p'' 20000 1000 []]))
         (sample_event ''ee'' ''p'' 20000 1000 []) = 1"
proof -
  let ?e = "sample_event ''ee'' ''p'' 20000 1000 []"
  let ?fs = "[kinds_filter [1063, 20000]]"
  let ?st = "empty_relay\<lparr>events := [(1, ?e)]\<rparr>"
  have q1: "handleRequest sample_env None '''' ?fs None ?st = (empty_relay, [], Returned [?e])"
    by (simp add: request_eval)
  have q2: "handleRequest sample_env None '''' ?fs None empty_relay = (empty_relay, [], Returned [])"
    by (simp add: request_eval)
  have m: "?e \<in> set (delivered [] (Returned [?e]))" by simp
  have eph: "ephemeral ?e" by (simp add: ephemeral_def sample_event_def)
  have lim: "\<forall>f \<in> set ?fs. limit f = None" by (simp add: kinds_filter_def)
  have alle: "\<forall>x \<in> set (delivered [] (Returned [?e])). ephemeral x" using eph by simp
  have dist: "length ?fs = 1 \<and> distinct (map (\<lambda>row. id' (snd row)) (events ?st))"
    by (simp add: empty_relay_def)
  note t = ephemeral_deleted_once_returned [OF q1 m eph q2]
  from t have a: "\<not> exists_id (id' ?e) (events empty_relay)" by blast
  then have a': "\<not> exists_id ''ee'' (events empty_relay)" by (simp add: sample_event_def)
  from t alle lim have c: "delivered [] (Returned []) = []" by blast
  from t dist have d: "count_list (delivered [] (Returned [?e])) ?e = 1" by blast
  from q1 eph q2 a' c d show ?thesis by (intro conjI)
qed

text \<open>
  The claim as written has the event returned exactly once and the second query empty,
  whatever the request. A request with two filters that both match hands the event back
  twice; and when the first request also handed back an event of a kind that is kept,
  the second request, made of the same filters, hands that one back again.
\<close>

theorem ephemeral_twice_counterexample:
  "ephemeral (sample_event ''ee'' ''p'' 20000 1000 [])
   \<and> handleRequest sample_env None '''' [kinds_filter [1063, 20000], kinds_filter [1063, 20000]] None
       (empty_relay\<lparr>events := [(1, sample_event ''ee'' ''p'' 20000 1000 [])]\<rparr>)
     = (empty_relay, [],
        Returned [sample_event ''ee'' ''p'' 20000 1000 [], sample_event ''ee'' ''p'' 20000 1000 []])
   \<and> handleRequest sample_env (Some ws1) ''s1'' [kinds_filter [1063, 20000], kinds_filter [1063, 20000]] None
       (empty_relay\<lparr>events := [(1, sample_event ''ee'' ''p'' 20000 1000 [])]\<rparr>)
     = (empty_relay\<lparr>topics := [(ws1, ''17-s1'')],
          subIds := [(''17-s1'', [kinds_filter [1063, 20000], kinds_filter [1063, 20000]])]\<rparr>,
        [(Publish ''17-s1'', EVENT ''s1'' (sample_event ''ee'' ''p'' 20000 1000 [])),
         (Publish ''17-s1'', EVENT ''s1'' (sample_event ''ee'' ''p'' 20000 1000 [])),
         (Publish ''17-s1'', EOSE ''s1'')], Done)
   \<and> handleRequest sample_env None '''' [kinds_filter [1063, 20000]] None
       (empty_relay\<lparr>events := [(1, sample_event ''ee'' ''p'' 20000 1000 []),
                               (2, sample_event ''rr'' ''p'' 1063 1000 [])]\<rparr>)
     = (empty_relay\<lparr>events := [(2, sample_event ''rr'' ''p'' 1063 1000 [])]\<rparr>, [],
        Returned [sample_event ''ee'' ''p'' 20000 1000 [], sample_event ''rr'' ''p'' 1063 1000 []])
   \<and> handleRequest sample_env None '''' [kinds_filter [1063, 20000]] None
       (empty_relay\<lparr>events := [(2, sample_event ''rr'' ''p'' 1063 1000 [])]\<rparr>)
     = (empty_relay\<lparr>events := [(2, sample_event ''rr'' ''p'' 1063 1000 [])]\<rparr>, [],
        Returned [sample_event ''rr'' ''p'' 1063 1000 []])"
  by (simp add: request_eval ws1_def dec.simps)

section \<open>The write path\<close>

lemma set_insort_row [simp]: "set (insort_key fst row rows) = insert row (set rows)"
  by (simp add: set_insort_key)

lemma row_of_simps [simp]:
  "id' (row_of p) = id' p" "pubkey (row_of p) = pubkey p" "sig (row_of p) = sig p"
  "kind (row_of p) = kind p" "created_at (row_of p) = created_at p"
  "content (row_of p) = content p" "tags (row_of p) = tags p"
  "keys (row_of p) = columns" "others (row_of p) = []"
  by (simp_all add: row_of_def)

lemma row_of_ephemeral [simp]: "ephemeral (row_of p) = ephemeral p"
  by (simp add: ephemeral_def)

lemma row_of_tags_index [simp]: "tags_index_values (row_of p) = tags_index_values p"
  by (simp add: tags_index_values_def single_letter_tags_def)

lemma row_of_tag_where [simp]: "tag_where kv (row_of p) = tag_where kv p"
  by (simp add: tag_where_def)

lemma row_of_row_of [simp]: "row_of (row_of p) = row_of p"
  by (simp add: row_of_def)

lemma insert_event_ok:
  assumes "insert_event env p rows = Inr rows'" "standard_keys p"
  shows "\<exists>r. r \<notin> fst ` set rows \<and> rows' = insort_key fst (r, row_of p) rows"
  using assms
  by (auto simp: insert_event_def insert_row_def split: option.splits sum.splits if_splits list.splits)

lemma write_event_ok:
  assumes "write_event env p idr st = Inr st1" "standard_keys p"
  shows "\<exists>r. r \<notin> fst ` set (events st)
           \<and> events st1 = delete_ids (case idr of None \<Rightarrow> [] | Some i \<Rightarrow> if i = [] then [] else [i])
                              (insort_key fst (r, row_of p) (events st))"
proof (cases "truthy idr")
  case True
  then obtain i where i: "idr = Some i" "i \<noteq> []"
    by (auto simp: truthy_def split: option.splits)
  with assms obtain rows where rows: "insert_event env p (events st) = Inr rows"
    "events st1 = delete_ids [i] rows"
    by (auto simp: write_event_def truthy_def split: if_splits sum.splits)
  from insert_event_ok [OF rows(1) assms(2)] rows(2) i show ?thesis by auto
next
  case False
  then have c: "(case idr of None \<Rightarrow> [] | Some i \<Rightarrow> if i = [] then [] else [i]) = []"
    by (auto simp: truthy_def split: option.splits)
  from False assms obtain rows where rows: "insert_event env p (events st) = Inr rows"
    "events st1 = rows"
    by (auto simp: write_event_def split: if_splits sum.splits)
  from insert_event_ok [OF rows(1) assms(2)] rows(2) c show ?thesis by auto
qed

lemma find_SomeD: "find P xs = Some x \<Longrightarrow> P x \<and> x \<in> set xs"
  by (induction xs) (auto split: if_splits)

lemma idQuery_Some:
  assumes "idQuery env b pk n d rows = Some i"
  shows "\<exists>row \<in> set rows. id' (snd row) = i \<and> pubkey (snd row) = pk \<and> kind (snd row) = n
           \<and> (b \<longrightarrow> d \<in> set (tags_index_values (snd row)))"
proof -
  let ?P = "\<lambda>(_, e). pubkey e = pk \<and> kind e = n \<and> (b \<longrightarrow> d \<in> set (tags_index_values e))"
  let ?rows = "engine_order (join_scan env b pk n d) rows"
  from assms obtain row where f: "find ?P ?rows = Some row" and i: "i = (case row of (_, e) \<Rightarrow> id' e)"
    unfolding idQuery_def by (cases "find ?P ?rows") auto
  from find_SomeD [OF f] have "?P row" "row \<in> set rows" by auto
  with i show ?thesis
    by (cases row) (auto intro!: bexI [of _ row])
qed

lemma idQuery_None:
  assumes "idQuery env b pk n d rows = None" "row \<in> set rows"
      and "pubkey (snd row) = pk" "kind (snd row) = n" "b \<longrightarrow> d \<in> set (tags_index_values (snd row))"
  shows False
proof -
  let ?P = "\<lambda>(_, e). pubkey e = pk \<and> kind e = n \<and> (b \<longrightarrow> d \<in> set (tags_index_values e))"
  let ?rows = "engine_order (join_scan env b pk n d) rows"
  from assms(1) have "find ?P ?rows = None"
    unfolding idQuery_def by (cases "find ?P ?rows") auto
  moreover from assms(2) have "row \<in> set ?rows" by simp
  ultimately have "\<not> ?P row" by (simp only: find_None_iff) blast
  with assms(3-5) show False by (cases row) auto
qed

lemma idToRemove_exists:
  assumes "idToRemove env p rows = Some i"
  shows "\<exists>row \<in> set rows. id' (snd row) = i"
  using assms idQuery_Some
  by (fastforce simp: idToRemove_def Let_def split: if_splits)

lemma handleRequest_ids_delivered:
  assumes "handleRequest env ws reqId (map (\<lambda>f. f\<lparr>ids := Some [i]\<rparr>) fs) existing st = (st', frames, r)"
      and "x \<in> set (delivered frames r)"
  shows "id' x = i \<and> x \<in> snd ` set (events st)"
proof -
  let ?fs = "map (\<lambda>f. f\<lparr>ids := Some [i]\<rparr>) fs"
  note d = handleRequest_delivered(1) [OF assms(1)]
  have "\<exists>evs. run_queries env ?fs (events st) = Inr evs \<and> x \<in> set evs"
    using assms(2) d
    by (cases "list_all admitted ?fs"; cases "run_queries env ?fs (events st)") auto
  then obtain evs where evs: "run_queries env ?fs (events st) = Inr evs" "x \<in> set evs" by blast
  from run_queries_sound [OF evs] obtain f' r' where f': "f' \<in> set ?fs"
    "query_filter env f' (events st) = Inr r'" "x \<in> set r'" by blast
  from query_filter_sound [OF f'(2,3)] obtain sw where sw: "x \<in> snd ` set (events st)"
    "row_matches f' sw x" by blast
  from f'(1) have "ids f' = Some [i]" by auto
  with sw show ?thesis by (simp add: row_matches_def in_list_def)
qed

lemma fanout_events_kept:
  assumes "fanout env w p entries st = (st', frames)"
      and "\<forall>row \<in> set (events st). id' (snd row) = id' p \<longrightarrow> \<not> ephemeral (snd row)"
  shows "events st' = events st"
  using assms
proof (induction entries arbitrary: st st' frames)
  case Nil
  then show ?case by simp
next
  case (Cons a entries)
  obtain subId fs where a: "a = (subId, fs)" by (cases a)
  obtain st1 fr1 r1 where h: "handleRequest env (Some w) (reqId_of subId)
      (map (\<lambda>f. f\<lparr>ids := Some [id' p]\<rparr>) fs) (Some subId) st = (st1, fr1, r1)"
    by (metis prod_cases3)
  obtain st2 fr2 where f: "fanout env w p entries st1 = (st2, fr2)"
    by (cases "fanout env w p entries st1")
  from Cons.prems(1) a h f have st': "st' = st2" by (simp add: Let_def)
  have "\<forall>x \<in> set (delivered fr1 r1). \<not> ephemeral x"
  proof
    fix x assume "x \<in> set (delivered fr1 r1)"
    from handleRequest_ids_delivered [OF h this] Cons.prems(2) show "\<not> ephemeral x" by auto
  qed
  then have "filter ephemeral (delivered fr1 r1) = []" by (simp add: filter_empty_conv)
  with handleRequest_delivered(2) [OF h] have e1: "events st1 = events st" by simp
  with Cons.IH [OF f] Cons.prems(2) st' show ?case by simp
qed

lemma handleEvent_accepted:
  assumes "handleEvent env (Some w) p st = (st', (Send w, OK (id' p) True t) # frames, r)"
  shows "validateEvent env p = Inr True \<and> \<not> exists_id (id' p) (events st)
       \<and> (\<exists>st1. write_event env p (idToRemove env p (events st)) st = Inr st1
                \<and> fanout env w p (subIds st1) st1 = (st', frames))
       \<and> r = Done \<and> t = Text ''''"
  using assms
  by (auto simp: handleEvent_def Let_def split: sum.splits if_splits prod.splits)

lemma filter_insort_fresh:
  "filter Q xs = [] \<Longrightarrow> Q x \<Longrightarrow> filter Q (insort_key f x xs) = [x]"
  by (induction xs) (auto split: if_splits)

lemma write_event_rows_of_id:
  assumes "write_event env p (idToRemove env p (events st)) st = Inr st1"
      and "\<not> exists_id (id' p) (events st)" and "standard_keys p"
  shows "\<exists>r. filter (\<lambda>row. id' (snd row) = id' p) (events st1) = [(r, row_of p)]"
proof -
  let ?Q = "\<lambda>row :: int \<times> event. id' (snd row) = id' p"
  let ?D = "case idToRemove env p (events st) of None \<Rightarrow> [] | Some i \<Rightarrow> if i = [] then [] else [i]"
  from write_event_ok [OF assms(1,3)] obtain r where
    r: "events st1 = delete_ids ?D (insort_key fst (r, row_of p) (events st))" by blast
  have none: "filter ?Q (events st) = []"
    using assms(2) by (auto simp: exists_id_def list_ex_iff filter_empty_conv)
  have "id' p \<notin> set ?D"
  proof (cases "idToRemove env p (events st)")
    case None
    then show ?thesis by simp
  next
    case (Some i)
    from idToRemove_exists [OF this] assms(2) have "i \<noteq> id' p"
      by (auto simp: exists_id_def list_ex_iff)
    with Some show ?thesis by simp
  qed
  then have "filter ?Q (events st1)
      = filter ?Q (insort_key fst (r, row_of p) (events st))"
    unfolding r delete_ids_def by (auto intro!: filter_cong simp: case_prod_beta)
  moreover have "filter ?Q (insort_key fst (r, row_of p) (events st))
      = [(r, row_of p)]"
    using none by (intro filter_insort_fresh) simp_all
  ultimately show ?thesis by simp
qed

lemma handleEvent_accepted_kept:
  assumes "handleEvent env (Some w) p st = (st', (Send w, OK (id' p) True t) # frames, r)"
      and "\<not> ephemeral p" and "standard_keys p"
  shows "\<exists>st1. write_event env p (idToRemove env p (events st)) st = Inr st1 \<and> events st' = events st1"
proof -
  from handleEvent_accepted [OF assms(1)] obtain st1 where
    st1: "write_event env p (idToRemove env p (events st)) st = Inr st1"
    "fanout env w p (subIds st1) st1 = (st', frames)" "\<not> exists_id (id' p) (events st)" by blast
  from write_event_rows_of_id [OF st1(1,3) assms(3)] obtain r0 where
    r0: "filter (\<lambda>row. id' (snd row) = id' p) (events st1) = [(r0, row_of p)]" by blast
  have "\<forall>row \<in> set (events st1). id' (snd row) = id' p \<longrightarrow> \<not> ephemeral (snd row)"
  proof (intro ballI impI)
    fix row assume "row \<in> set (events st1)" "id' (snd row) = id' p"
    then have "row \<in> set (filter (\<lambda>row. id' (snd row) = id' p) (events st1))" by simp
    with r0 have "snd row = row_of p" by simp
    with assms(2) show "\<not> ephemeral (snd row)" by simp
  qed
  from fanout_events_kept [OF st1(2) this] st1(1) show ?thesis by blast
qed

lemma handleEvent_rest_accepted:
  assumes "handleEvent env None e st = (st', frames, Done)" "\<not> exists_id (id' e) (events st)"
  shows "validateEvent env e = Inr True \<and> write_event env e (idToRemove env e (events st)) st = Inr st'"
  using assms
  by (auto simp: handleEvent_def Let_def split: sum.splits if_splits prod.splits)

text \<open>An acceptance, on a socket or over the REST bridge, of an event that is kept.\<close>

lemma handleEvent_written:
  assumes "handleEvent env (Some w) e st = (st', (Send w, OK (id' e) True (Text '''')) # frames, r)
         \<or> (\<not> exists_id (id' e) (events st) \<and> handleEvent env None e st = (st', frames, Done))"
      and "\<not> ephemeral e" and "standard_keys e"
  shows "\<exists>st1. write_event env e (idToRemove env e (events st)) st = Inr st1 \<and> events st' = events st1
           \<and> \<not> exists_id (id' e) (events st)"
proof -
  from assms(1) consider
    (socket) "handleEvent env (Some w) e st = (st', (Send w, OK (id' e) True (Text '''')) # frames, r)"
    | (rest) "\<not> exists_id (id' e) (events st)" "handleEvent env None e st = (st', frames, Done)"
    by blast
  then show ?thesis
  proof cases
    case socket
    from handleEvent_accepted [OF socket] have "\<not> exists_id (id' e) (events st)" by simp
    with handleEvent_accepted_kept [OF socket assms(2,3)]
    show ?thesis by blast
  next
    case rest
    from handleEvent_rest_accepted [OF rest(2,1)] rest(1) show ?thesis by blast
  qed
qed

section \<open>Duplicates (C2)\<close>

lemmas event_eval =
  handleEvent_def validateEvent_def getFirstTag_def exists_id_def idToRemove_def idQuery_def
  template_def write_event_def insert_event_def insert_row_def standard_keys_iff row_of_def
  serialize_def columns_def sample_insert_def next_rowid_def single_letter_tags_def
  tags_index_values_def fanout.simps reqId_of_def subscribed_relay_def ws1_def dec.simps

lemma handleEvent_duplicate:
  assumes "validateEvent env e = Inr True" "exists_id (id' e) (events st)"
  shows "handleEvent env (Some w) e st = (st, [(Send w, OK (id' e) False (Text ''duplicate''))], Done)"
    and "handleEvent env None e st = (st, [], Done)"
  using assms by (simp_all add: handleEvent_def)

text \<open>
  C2, as the code has it. A valid event whose id is already in the table is answered on
  a socket by the one frame \<open>["OK", id, false, "duplicate"]\<close> (the REST bridge gets no
  frame), and the state is as before: nothing inserted, nothing deleted, no fan-out.
  When a first submission on a socket was acknowledged with \<open>true\<close>, the event is not of
  an ephemeral kind and its keys are exactly the seven column names, the same event
  submitted again is answered \<open>duplicate\<close> and the table holds exactly one row with its
  id.
\<close>

theorem duplicate_event_is_rejected:
  "(validateEvent env e = Inr True \<and> exists_id (id' e) (events st) \<longrightarrow>
       handleEvent env (Some w) e st = (st, [(Send w, OK (id' e) False (Text ''duplicate''))], Done)
     \<and> handleEvent env None e st = (st, [], Done))
   \<and> (handleEvent env (Some w) e st = (st1, (Send w, OK (id' e) True (Text '''')) # frames, r)
        \<and> \<not> ephemeral e \<and> standard_keys e \<longrightarrow>
       handleEvent env (Some w') e st1 = (st1, [(Send w', OK (id' e) False (Text ''duplicate''))], Done)
     \<and> length (filter (\<lambda>row. id' (snd row) = id' e) (events st1)) = 1)"
proof (intro conjI impI)
  assume "validateEvent env e = Inr True \<and> exists_id (id' e) (events st)"
  then show "handleEvent env (Some w) e st = (st, [(Send w, OK (id' e) False (Text ''duplicate''))], Done)"
    and "handleEvent env None e st = (st, [], Done)"
    by (simp_all add: handleEvent_duplicate)
next
  assume h: "handleEvent env (Some w) e st = (st1, (Send w, OK (id' e) True (Text '''')) # frames, r)
        \<and> \<not> ephemeral e \<and> standard_keys e"
  then have acc: "handleEvent env (Some w) e st = (st1, (Send w, OK (id' e) True (Text '''')) # frames, r)"
    and ne: "\<not> ephemeral e" and sk: "standard_keys e" by simp_all
  from handleEvent_accepted [OF acc] have v: "validateEvent env e = Inr True"
    and nex: "\<not> exists_id (id' e) (events st)" by simp_all
  from handleEvent_accepted_kept [OF acc ne sk] obtain st0 where
    st0: "write_event env e (idToRemove env e (events st)) st = Inr st0" "events st1 = events st0" by blast
  from write_event_rows_of_id [OF st0(1) nex sk] st0(2) obtain r0 where
    r0: "filter (\<lambda>row. id' (snd row) = id' e) (events st1) = [(r0, row_of e)]" by auto
  then show "length (filter (\<lambda>row. id' (snd row) = id' e) (events st1)) = 1" by simp
  from r0 have "(r0, row_of e) \<in> set (filter (\<lambda>row. id' (snd row) = id' e) (events st1))"
    by simp
  then have "(r0, row_of e) \<in> set (events st1)" by simp
  then have "exists_id (id' e) (events st1)"
    unfolding exists_id_def list_ex_iff by (rule bexI [rotated]) simp
  with v show "handleEvent env (Some w') e st1
      = (st1, [(Send w', OK (id' e) False (Text ''duplicate''))], Done)"
    by (simp add: handleEvent_duplicate)
qed

theorem duplicate_event_is_rejected_witness:
  "handleEvent sample_env (Some ws1) (sample_event ''aa'' ''p'' 30063 1000 [[''d'', ''app.one'']])
       (subscribed_relay (kinds_filter [30063]))
     = ((subscribed_relay (kinds_filter [30063]))
          \<lparr>events := [(1, sample_event ''aa'' ''p'' 30063 1000 [[''d'', ''app.one'']])]\<rparr>,
        [(Send ws1, OK ''aa'' True (Text '''')),
         (Publish ''17-s1'', EVENT ''s1'' (sample_event ''aa'' ''p'' 30063 1000 [[''d'', ''app.one'']]))],
        Done)
   \<and> handleEvent sample_env (Some ws2) (sample_event ''aa'' ''p'' 30063 1000 [[''d'', ''app.one'']])
       ((subscribed_relay (kinds_filter [30063]))
          \<lparr>events := [(1, sample_event ''aa'' ''p'' 30063 1000 [[''d'', ''app.one'']])]\<rparr>)
     = ((subscribed_relay (kinds_filter [30063]))
          \<lparr>events := [(1, sample_event ''aa'' ''p'' 30063 1000 [[''d'', ''app.one'']])]\<rparr>,
        [(Send ws2, OK ''aa'' False (Text ''duplicate''))], Done)
   \<and> handleEvent sample_env None (sample_event ''aa'' ''p'' 30063 1000 [[''d'', ''app.one'']])
       ((subscribed_relay (kinds_filter [30063]))
          \<lparr>events := [(1, sample_event ''aa'' ''p'' 30063 1000 [[''d'', ''app.one'']])]\<rparr>)
     = ((subscribed_relay (kinds_filter [30063]))
          \<lparr>events := [(1, sample_event ''aa'' ''p'' 30063 1000 [[''d'', ''app.one'']])]\<rparr>,
        [], Done)"
proof -
  let ?e = "sample_event ''aa'' ''p'' 30063 1000 [[''d'', ''app.one'']]"
  let ?st = "subscribed_relay (kinds_filter [30063])"
  let ?st1 = "?st\<lparr>events := [(1, ?e)]\<rparr>"
  let ?fr = "[(Publish ''17-s1'', EVENT ''s1'' ?e)]"
  have acc: "handleEvent sample_env (Some ws1) ?e ?st
      = (?st1, (Send ws1, OK (id' ?e) True (Text '''')) # ?fr, Done)"
    by (simp add: request_eval event_eval)
  have ne: "\<not> ephemeral ?e" by (simp add: ephemeral_def sample_event_def)
  have sk: "standard_keys ?e" by (simp add: standard_keys_iff sample_event_def columns_def)
  have v: "validateEvent sample_env ?e = Inr True"
    by (simp add: validateEvent_def sample_env_def sample_event_def)
  have ex: "exists_id (id' ?e) (events ?st1)"
    by (simp add: exists_id_def)
  have i: "id' ?e = ''aa''" by (simp add: sample_event_def)
  note t1 = duplicate_event_is_rejected [of sample_env ?e ?st ws1 ?st1 ?fr Done ws2]
  note t2 = duplicate_event_is_rejected [of sample_env ?e ?st1 ws1 ?st1 ?fr Done ws2]
  from t1 acc ne sk have d: "handleEvent sample_env (Some ws2) ?e ?st1
      = (?st1, [(Send ws2, OK (id' ?e) False (Text ''duplicate''))], Done)" by blast
  from t2 v ex have n: "handleEvent sample_env None ?e ?st1 = (?st1, [], Done)" by blast
  from acc d n show ?thesis unfolding i by (intro conjI)
qed

text \<open>
  The claim as written fails for an ephemeral event that a live subscription matches:
  the fan-out of the first submission deletes it, and the second submission is
  accepted again; the table then holds no copy. It also fails for an event that is kept
  when the object has a key \<open>ID\<close> before \<open>id\<close>: the row is stored under the value of
  \<open>ID\<close>, the check for \<open>payload.id\<close> never finds it, and the same event is accepted
  twice and stored twice.
\<close>

theorem duplicate_ephemeral_counterexample:
  "handleRequest sample_env (Some ws1) ''s1'' [kinds_filter [1063, 20000]] None empty_relay
     = (subscribed_relay (kinds_filter [1063, 20000]), [(Publish ''17-s1'', EOSE ''s1'')], Done)
   \<and> validateEvent sample_env (sample_event ''ee'' ''p'' 20000 1000 []) = Inr True
   \<and> handleEvent sample_env (Some ws1) (sample_event ''ee'' ''p'' 20000 1000 [])
       (subscribed_relay (kinds_filter [1063, 20000]))
     = (subscribed_relay (kinds_filter [1063, 20000]),
        [(Send ws1, OK ''ee'' True (Text '''')),
         (Publish ''17-s1'', EVENT ''s1'' (sample_event ''ee'' ''p'' 20000 1000 []))], Done)
   \<and> events (subscribed_relay (kinds_filter [1063, 20000])) = []
   \<and> (let e = (sample_event ''aa'' ''p'' 1063 1000 [])
                 \<lparr>keys := ''ID'' # columns, others := [(''ID'', JStr ''zz'')]\<rparr>;
          st1 = empty_relay\<lparr>events := [(1, sample_event ''zz'' ''p'' 1063 1000 [])]\<rparr>;
          st2 = empty_relay\<lparr>events := [(1, sample_event ''zz'' ''p'' 1063 1000 []),
                                        (2, sample_event ''zz'' ''p'' 1063 1000 [])]\<rparr>
      in \<not> ephemeral e
         \<and> handleEvent sample_env (Some ws1) e empty_relay
             = (st1, [(Send ws1, OK ''aa'' True (Text ''''))], Done)
         \<and> handleEvent sample_env (Some ws1) e st1
             = (st2, [(Send ws1, OK ''aa'' True (Text ''''))], Done))"
  by (simp add: request_eval event_eval)

section \<open>Replaceable kinds (C3)\<close>

lemma filter_le_1_unique:
  assumes "length (filter P xs) \<le> 1" "x \<in> set xs" "P x" "y \<in> set xs" "P y"
  shows "x = y"
proof (rule ccontr)
  assume "x \<noteq> y"
  with assms have "{x, y} \<subseteq> set (filter P xs)" "card {x, y} = 2" by auto
  then have "2 \<le> card (set (filter P xs))"
    by (metis List.finite_set card_mono)
  also have "\<dots> \<le> length (filter P xs)" by (rule card_length)
  finally show False using assms(1) by simp
qed

lemma holders_delete_ids_le:
  "length (holders p k (delete_ids D rows)) \<le> length (holders p k rows)"
proof -
  have "holders p k (delete_ids D rows) = filter (\<lambda>row. id' (snd row) \<notin> set D) (holders p k rows)"
    by (auto simp: holders_def delete_ids_def case_prod_beta intro: filter_cong)
  then show ?thesis by simp
qed

lemma replaceable_not_ephemeral: "replaceable (kind e) \<Longrightarrow> \<not> ephemeral e"
  by (auto simp: replaceable_def ephemeral_def)

lemma idToRemove_replaceable:
  "replaceable (kind e) \<Longrightarrow> idToRemove env e rows
     = idQuery env False (pubkey e) (kind e) (''d:'' @ template (getFirstTag (tags e) ''d'')) rows"
  by (auto simp: replaceable_def idToRemove_def Let_def)

lemma write_replaceable:
  assumes ids: "\<forall>row \<in> set (events st). id' (snd row) \<noteq> []"
      and one: "length (holders (pubkey e) (kind e) (events st)) \<le> 1"
      and k: "replaceable (kind e)"
      and w: "write_event env e (idToRemove env e (events st)) st = Inr st1"
      and nex: "\<not> exists_id (id' e) (events st)"
      and sk: "standard_keys e"
  shows "\<exists>r. holders (pubkey e) (kind e) (events st1) = [(r, row_of e)]"
proof -
  let ?H = "\<lambda>row :: int \<times> event. pubkey (snd row) = pubkey e \<and> kind (snd row) = kind e"
  let ?D = "case idToRemove env e (events st) of None \<Rightarrow> [] | Some i \<Rightarrow> if i = [] then [] else [i]"
  let ?e' = "row_of e"
  from write_event_ok [OF w sk] obtain r where
    r: "events st1 = delete_ids ?D (insort_key fst (r, ?e') (events st))" by blast
  let ?Q = "\<lambda>row. ?H row \<and> id' (snd row) \<notin> set ?D"
  have eq: "holders (pubkey e) (kind e) (events st1) = filter ?Q (insort_key fst (r, ?e') (events st))"
    unfolding r holders_def delete_ids_def by (auto simp: case_prod_beta intro: filter_cong)
  note q = idToRemove_replaceable [OF k, of env "events st"]
  have fresh: "id' e \<notin> set ?D"
  proof (cases "idToRemove env e (events st)")
    case None then show ?thesis by simp
  next
    case (Some i)
    from idToRemove_exists [OF this] nex have "i \<noteq> id' e"
      by (auto simp: exists_id_def list_ex_iff)
    with Some show ?thesis by auto
  qed
  have none: "filter ?Q (events st) = []"
  proof (cases "idToRemove env e (events st)")
    case None
    with q have n: "idQuery env False (pubkey e) (kind e) (''d:'' @ template (getFirstTag (tags e) ''d'')) (events st) = None"
      by simp
    have "\<forall>row \<in> set (events st). \<not> ?H row"
      using idQuery_None [OF n] by blast
    then show ?thesis by (auto simp: filter_empty_conv)
  next
    case (Some i)
    with q have s: "idQuery env False (pubkey e) (kind e) (''d:'' @ template (getFirstTag (tags e) ''d'')) (events st) = Some i"
      by simp
    from idQuery_Some [OF s] obtain h where h: "h \<in> set (events st)" "id' (snd h) = i" "?H h" by blast
    with ids have "i \<noteq> []" by blast
    with Some have D: "?D = [i]" by simp
    have "\<forall>row \<in> set (events st). \<not> ?Q row"
    proof
      fix row assume row: "row \<in> set (events st)"
      show "\<not> ?Q row"
      proof
        assume "?Q row"
        then have "?H row" "id' (snd row) \<noteq> i" using D by auto
        from filter_le_1_unique [OF one [unfolded holders_def] row this(1) h(1) h(3)] h(2) this(2)
        show False by simp
      qed
    qed
    then show ?thesis by (auto simp: filter_empty_conv)
  qed
  have "filter ?Q (insort_key fst (r, ?e') (events st)) = [(r, ?e')]"
    using none fresh by (intro filter_insort_fresh) simp_all
  with eq have "holders (pubkey e) (kind e) (events st1) = [(r, ?e')]" by simp
  then show ?thesis ..
qed

lemma filter_insort_not:
  "\<not> P x \<Longrightarrow> filter P (insort_key f x xs) = filter P xs"
  by (induction xs) auto

lemma delete_ids_twice: "delete_ids D2 (delete_ids D1 rows) = delete_ids (D1 @ D2) rows"
  by (auto simp: delete_ids_def case_prod_beta intro: filter_cong)

lemma fanout_deletes:
  assumes "fanout env w p entries st = (st', frames)"
  shows "\<exists>D. events st' = delete_ids D (events st)"
  using assms
proof (induction entries arbitrary: st st' frames)
  case Nil
  then have "events st' = delete_ids [] (events st)" by simp
  then show ?case ..
next
  case (Cons a entries)
  obtain subId fs where a: "a = (subId, fs)" by (cases a)
  obtain st1 fr1 r1 where h: "handleRequest env (Some w) (reqId_of subId)
      (map (\<lambda>f. f\<lparr>ids := Some [id' p]\<rparr>) fs) (Some subId) st = (st1, fr1, r1)"
    by (metis prod_cases3)
  obtain st2 fr2 where f: "fanout env w p entries st1 = (st2, fr2)"
    by (cases "fanout env w p entries st1")
  from Cons.prems a h f have st': "st' = st2" by (simp add: Let_def)
  from Cons.IH [OF f] obtain D2 where "events st2 = delete_ids D2 (events st1)" by blast
  with handleRequest_delivered(2) [OF h] st'
  have "events st' = delete_ids (map id' (filter ephemeral (delivered fr1 r1)) @ D2) (events st)"
    by (simp add: delete_ids_twice)
  then show ?case ..
qed

text \<open>What \<open>_handleEvent\<close> does to the table: nothing, or the write followed by deletions.\<close>

lemma handleEvent_events:
  assumes "handleEvent env ws e st = (st', out)"
  shows "events st' = events st
       \<or> (validateEvent env e = Inr True \<and> \<not> exists_id (id' e) (events st)
          \<and> (\<exists>st1 D. write_event env e (idToRemove env e (events st)) st = Inr st1
                \<and> events st' = delete_ids D (events st1)))"
proof (cases "validateEvent env e = Inr True \<and> \<not> exists_id (id' e) (events st)
      \<and> (\<exists>st1. write_event env e (idToRemove env e (events st)) st = Inr st1)")
  case True
  then obtain st1 where st1: "write_event env e (idToRemove env e (events st)) st = Inr st1" by blast
  show ?thesis
  proof (cases ws)
    case None
    with True st1 assms have "events st' = delete_ids [] (events st1)"
      by (auto simp: handleEvent_def)
    with True st1 show ?thesis by blast
  next
    case (Some w)
    obtain st2 fr where f: "fanout env w e (subIds st1) st1 = (st2, fr)"
      by (cases "fanout env w e (subIds st1) st1")
    with True st1 Some assms have "st' = st2" by (auto simp: handleEvent_def)
    with fanout_deletes [OF f] True st1 show ?thesis by blast
  qed
next
  case False
  with assms have "events st' = events st"
    by (auto simp: handleEvent_def Let_def dest: write_event_registry(2)
             split: sum.splits if_splits option.splits prod.splits)
  then show ?thesis ..
qed

lemma validateEvent_verified: "validateEvent env e = Inr True \<Longrightarrow> verifyEvent env e"
  by (auto simp: validateEvent_def split: if_splits)

lemma write_keeps_inv:
  assumes v: "\<forall>x. verifyEvent env x \<longrightarrow> id' x \<noteq> []"
      and ids: "\<forall>row \<in> set (events st). id' (snd row) \<noteq> []"
      and one: "\<forall>p k. replaceable k \<longrightarrow> length (holders p k (events st)) \<le> 1"
      and ok: "validateEvent env e = Inr True" "\<not> exists_id (id' e) (events st)"
      and w: "write_event env e (idToRemove env e (events st)) st = Inr st1"
      and sk: "standard_keys e"
  shows "(\<forall>row \<in> set (events st1). id' (snd row) \<noteq> [])
       \<and> (\<forall>p k. replaceable k \<longrightarrow> length (holders p k (events st1)) \<le> 1)"
proof (intro conjI allI impI ballI)
  let ?D = "case idToRemove env e (events st) of None \<Rightarrow> [] | Some i \<Rightarrow> if i = [] then [] else [i]"
  from write_event_ok [OF w sk] obtain r where
    r: "events st1 = delete_ids ?D (insort_key fst (r, row_of e) (events st))" by blast
  from validateEvent_verified [OF ok(1)] v have ne: "id' e \<noteq> []" by blast
  {
    fix row assume "row \<in> set (events st1)"
    with r have "row = (r, row_of e) \<or> row \<in> set (events st)"
      by (auto simp: set_delete_ids)
    with ids ne show "id' (snd row) \<noteq> []" by auto
  }
  {
    fix p k assume k: "replaceable k"
    show "length (holders p k (events st1)) \<le> 1"
    proof (cases "pubkey e = p \<and> kind e = k")
      case True
      with one k have "length (holders (pubkey e) (kind e) (events st)) \<le> 1" by blast
      from write_replaceable [OF ids this _ w ok(2) sk] True k show ?thesis by auto
    next
      case False
      then have "holders p k (insort_key fst (r, row_of e) (events st)) = holders p k (events st)"
        unfolding holders_def by (intro filter_insort_not) auto
      with holders_delete_ids_le [of p k ?D "insort_key fst (r, row_of e) (events st)"] r
      have "length (holders p k (events st1)) \<le> length (holders p k (events st))" by simp
      with one k show ?thesis by (meson le_trans)
    qed
  }
qed

lemma delete_keeps_inv:
  assumes "(\<forall>row \<in> set rows. id' (snd row) \<noteq> [])
         \<and> (\<forall>p k. replaceable k \<longrightarrow> length (holders p k rows) \<le> 1)"
  shows "(\<forall>row \<in> set (delete_ids D rows). id' (snd row) \<noteq> [])
       \<and> (\<forall>p k. replaceable k \<longrightarrow> length (holders p k (delete_ids D rows)) \<le> 1)"
proof (intro conjI allI impI ballI)
  fix row assume "row \<in> set (delete_ids D rows)"
  with assms show "id' (snd row) \<noteq> []" by (auto simp: set_delete_ids)
next
  fix p k assume "replaceable k"
  with assms have "length (holders p k rows) \<le> 1" by blast
  with holders_delete_ids_le [of p k D rows] show "length (holders p k (delete_ids D rows)) \<le> 1"
    by (rule le_trans)
qed

lemma server_step_inv:
  assumes v: "\<forall>x. verifyEvent env x \<longrightarrow> id' x \<noteq> []"
      and inv: "(\<forall>row \<in> set (events st). id' (snd row) \<noteq> [])
              \<and> (\<forall>p k. replaceable k \<longrightarrow> length (holders p k (events st)) \<le> 1)"
      and step: "server_step env standard_keys (live, st) (live', st')"
  shows "(\<forall>row \<in> set (events st'). id' (snd row) \<noteq> [])
       \<and> (\<forall>p k. replaceable k \<longrightarrow> length (holders p k (events st')) \<le> 1)"
proof -
  {
    fix ws0 e0 out0 assume "handleEvent env ws0 e0 st = (st', out0)" and sk: "standard_keys e0"
    from handleEvent_events [OF this(1)] have ?thesis
    proof
      assume "events st' = events st" with inv show ?thesis by simp
    next
      assume "validateEvent env e0 = Inr True \<and> \<not> exists_id (id' e0) (events st)
          \<and> (\<exists>st1 D. write_event env e0 (idToRemove env e0 (events st)) st = Inr st1
                \<and> events st' = delete_ids D (events st1))"
      then obtain st1 D where h: "validateEvent env e0 = Inr True" "\<not> exists_id (id' e0) (events st)"
        "write_event env e0 (idToRemove env e0 (events st)) st = Inr st1" "events st' = delete_ids D (events st1)"
        by blast
      from inv have i1: "\<forall>row \<in> set (events st). id' (snd row) \<noteq> []"
        and i2: "\<forall>p k. replaceable k \<longrightarrow> length (holders p k (events st)) \<le> 1" by blast+
      from delete_keeps_inv [OF write_keeps_inv [OF v i1 i2 h(1,2,3) sk], of D] h(4)
      show ?thesis by simp
    qed
  }
  note ev = this
  {
    fix ws0 reqId0 fs0 ex0 out0 assume "handleRequest env ws0 reqId0 fs0 ex0 st = (st', out0)"
    then have "handleRequest env ws0 reqId0 fs0 ex0 st = (st', fst out0, snd out0)" by simp
    from handleRequest_delivered(2) [OF this] delete_keeps_inv [OF inv] have ?thesis by simp
  }
  note rq = this
  from step show ?thesis
  proof (cases rule: server_step.cases)
    case (upgrade w)
    with inv show ?thesis by simp
  next
    case (message w m out)
    show ?thesis
    proof (cases m)
      case (ReqMsg payload filters)
      with message have "handleRequest env (Some w) payload filters None st = (st', out)" by simp
      then show ?thesis by (rule rq)
    next
      case (EventMsg payload)
      with message have "handleEvent env (Some w) payload st = (st', out)" "standard_keys payload"
        by simp_all
      then show ?thesis by (rule ev)
    next
      case (CloseMsg payload)
      with message have "events st' = events st" by (auto simp: handleClose_def)
      with inv show ?thesis by simp
    next
      case (OtherMsg t)
      with message have "events st' = events st" by (auto simp: handleError_def)
      with inv show ?thesis by simp
    qed
  next
    case (closed w)
    then have "events st' = events st" by (simp add: websocket_close_def)
    with inv show ?thesis by simp
  next
    case (rest_event payload out)
    then have "handleEvent env None payload st = (st', out)" "standard_keys payload" by simp_all
    then show ?thesis by (rule ev)
  next
    case (rest_request body out)
    then have "handleRequest env None [] body None st = (st', out)" by simp
    then show ?thesis by (rule rq)
  qed
qed

lemma reachable_inv:
  assumes v: "\<forall>x. verifyEvent env x \<longrightarrow> id' x \<noteq> []"
      and r: "(server_step env standard_keys)\<^sup>*\<^sup>* (live0, st0) (live, st)"
      and e: "events st0 = []"
  shows "(\<forall>row \<in> set (events st). id' (snd row) \<noteq> [])
       \<and> (\<forall>p k. replaceable k \<longrightarrow> length (holders p k (events st)) \<le> 1)"
proof -
  have "(\<forall>row \<in> set (events (snd (live, st))). id' (snd row) \<noteq> [])
       \<and> (\<forall>p k. replaceable k \<longrightarrow> length (holders p k (events (snd (live, st)))) \<le> 1)"
    using r
  proof (induction rule: rtranclp_induct)
    case base
    with e show ?case by (simp add: holders_def)
  next
    case (step y z)
    from server_step_inv [OF v step.IH, of "fst y" "fst z" "snd z"] step.hyps(2)
    show ?case by simp
  qed
  then show ?thesis by simp
qed

text \<open>
  C3, as the code has it. Provided verified events have a non-empty id and every event
  object submitted has exactly the seven column names for keys, in every state the
  server reaches from an empty table there is at most one row for a publisher and a
  kind among 0, 3 and 10000 to 19999; and when an event of such a kind, with those keys,
  is accepted there (acknowledged with \<open>true\<close> on a socket, or written for the REST
  bridge), that event is the one row of its publisher and kind: the last accepted
  submission is retained, whatever the \<open>created_at\<close> and ids.
\<close>

theorem replaceable_latest_accepted_wins:
  assumes "\<forall>x. verifyEvent env x \<longrightarrow> id' x \<noteq> []"
      and "replaceable k"
      and "(server_step env standard_keys)\<^sup>*\<^sup>* (live0, st0) (live, st)"
      and "events st0 = []"
  shows "length (holders p k (events st)) \<le> 1
       \<and> (kind e = k \<and> pubkey e = p \<and> standard_keys e
            \<and> (handleEvent env (Some w) e st = (st', (Send w, OK (id' e) True (Text '''')) # frames, r)
               \<or> (\<not> exists_id (id' e) (events st) \<and> handleEvent env None e st = (st', frames, Done)))
          \<longrightarrow> map snd (holders p k (events st')) = [row_of e])"
proof (intro conjI impI)
  note inv = reachable_inv [OF assms(1,3,4)]
  from inv assms(2) show "length (holders p k (events st)) \<le> 1" by blast
  assume h: "kind e = k \<and> pubkey e = p \<and> standard_keys e
      \<and> (handleEvent env (Some w) e st = (st', (Send w, OK (id' e) True (Text '''')) # frames, r)
         \<or> (\<not> exists_id (id' e) (events st) \<and> handleEvent env None e st = (st', frames, Done)))"
  then have k: "replaceable (kind e)" and sk: "standard_keys e" and kp: "kind e = k" "pubkey e = p"
    using assms(2) by simp_all
  have "\<exists>st1. write_event env e (idToRemove env e (events st)) st = Inr st1 \<and> events st' = events st1
      \<and> \<not> exists_id (id' e) (events st)"
  proof -
    from h consider
      (socket) "handleEvent env (Some w) e st = (st', (Send w, OK (id' e) True (Text '''')) # frames, r)"
      | (rest) "\<not> exists_id (id' e) (events st)" "handleEvent env None e st = (st', frames, Done)"
      by blast
    then show ?thesis
    proof cases
      case socket
      from handleEvent_accepted [OF socket] have "\<not> exists_id (id' e) (events st)" by simp
      with handleEvent_accepted_kept [OF socket replaceable_not_ephemeral [OF k] sk]
      show ?thesis by blast
    next
      case rest
      from handleEvent_rest_accepted [OF rest(2,1)] rest(1) show ?thesis by blast
    qed
  qed
  then obtain st1 where st1: "write_event env e (idToRemove env e (events st)) st = Inr st1"
    "events st' = events st1" and nex: "\<not> exists_id (id' e) (events st)" by blast
  from inv k have "\<forall>row \<in> set (events st). id' (snd row) \<noteq> []"
    "length (holders (pubkey e) (kind e) (events st)) \<le> 1" by blast+
  from write_replaceable [OF this k st1(1) nex sk] st1(2) kp
  show "map snd (holders p k (events st')) = [row_of e]" by auto
qed

theorem replaceable_latest_accepted_wins_witness:
  "replaceable 10000
   \<and> server_step checked_env standard_keys ([ws1], empty_relay)
        ([ws1], empty_relay\<lparr>events := [(1, sample_event ''aa'' ''p'' 10000 2000 [])]\<rparr>)
   \<and> length (holders ''p'' 10000 [(1, sample_event ''aa'' ''p'' 10000 2000 [])]) \<le> 1
   \<and> handleEvent checked_env (Some ws1) (sample_event ''bb'' ''p'' 10000 1000 [])
        (empty_relay\<lparr>events := [(1, sample_event ''aa'' ''p'' 10000 2000 [])]\<rparr>)
      = (empty_relay\<lparr>events := [(2, sample_event ''bb'' ''p'' 10000 1000 [])]\<rparr>,
         [(Send ws1, OK ''bb'' True (Text ''''))], Done)
   \<and> handleEvent checked_env None (sample_event ''bb'' ''p'' 10000 1000 [])
        (empty_relay\<lparr>events := [(1, sample_event ''aa'' ''p'' 10000 2000 [])]\<rparr>)
      = (empty_relay\<lparr>events := [(2, sample_event ''bb'' ''p'' 10000 1000 [])]\<rparr>, [], Done)
   \<and> map snd (holders ''p'' 10000 [(2, sample_event ''bb'' ''p'' 10000 1000 [])])
      = [sample_event ''bb'' ''p'' 10000 1000 []]"
proof -
  let ?e1 = "sample_event ''aa'' ''p'' 10000 2000 []"
  let ?e2 = "sample_event ''bb'' ''p'' 10000 1000 []"
  let ?sa = "empty_relay\<lparr>events := [(1, ?e1)]\<rparr>"
  let ?sb = "empty_relay\<lparr>events := [(2, ?e2)]\<rparr>"
  have v: "\<forall>x. verifyEvent checked_env x \<longrightarrow> id' x \<noteq> []"
    by (simp add: checked_env_def)
  have k: "replaceable 10000" by (simp add: replaceable_def)
  have m: "websocket_message checked_env ws1 (EventMsg ?e1) empty_relay
      = (?sa, [(Send ws1, OK ''aa'' True (Text ''''))], Done)"
    by (simp add: request_eval event_eval checked_env_def)
  have sk1: "\<forall>e. EventMsg ?e1 = EventMsg e \<longrightarrow> standard_keys e"
    by (simp add: standard_keys_iff sample_event_def columns_def)
  have sk2: "standard_keys ?e2"
    by (simp add: standard_keys_iff sample_event_def columns_def)
  have "ws1 \<in> set [ws1]" by simp
  from server_step.message [OF this sk1 m]
  have s: "server_step checked_env standard_keys ([ws1], empty_relay) ([ws1], ?sa)" .
  then have r: "(server_step checked_env standard_keys)\<^sup>*\<^sup>* ([ws1], empty_relay) ([ws1], ?sa)"
    by (rule r_into_rtranclp)
  have e0: "events empty_relay = []" by (simp add: empty_relay_def)
  have acc: "handleEvent checked_env (Some ws1) ?e2 ?sa
      = (?sb, (Send ws1, OK (id' ?e2) True (Text '''')) # [], Done)"
    by (simp add: request_eval event_eval checked_env_def)
  have rest: "handleEvent checked_env None ?e2 ?sa = (?sb, [], Done)"
    by (simp add: request_eval event_eval checked_env_def)
  have ke: "kind ?e2 = 10000 \<and> pubkey ?e2 = ''p''" by (simp add: sample_event_def)
  have ro: "row_of ?e2 = ?e2" by (simp add: row_of_def sample_event_def)
  note t = replaceable_latest_accepted_wins [OF v k r e0, of "''p''" ?e2 ws1 ?sb "[]" Done]
  from t have a: "length (holders ''p'' 10000 (events ?sa)) \<le> 1" by blast
  from t ke sk2 acc have b: "map snd (holders ''p'' 10000 (events ?sb)) = [row_of ?e2]" by blast
  from a have a': "length (holders ''p'' 10000 [(1, ?e1)]) \<le> 1" by (simp add: empty_relay_def)
  from b ro have b': "map snd (holders ''p'' 10000 [(2, ?e2)]) = [?e2]"
    by (simp add: empty_relay_def)
  from acc have acc': "handleEvent checked_env (Some ws1) ?e2 ?sa
      = (?sb, [(Send ws1, OK ''bb'' True (Text ''''))], Done)"
    by (simp add: sample_event_def)
  from k s a' acc' rest b' show ?thesis by (intro conjI)
qed

text \<open>
  The claim as written fails: the event created at 2000 is replaced by the event
  created at 1000 that is submitted after it. And without the condition on the keys not
  even one row per publisher and kind holds: an object with a key \<open>Kind\<close> before \<open>kind\<close>
  is looked up under \<open>payload.kind\<close>, which is not a replaceable kind, and stored under
  the value of \<open>Kind\<close>; two such submissions leave two rows of one publisher and kind
  10000.
\<close>

theorem replaceable_older_counterexample:
  "handleEvent checked_env (Some ws1) (sample_event ''aa'' ''p'' 10000 2000 []) empty_relay
     = (empty_relay\<lparr>events := [(1, sample_event ''aa'' ''p'' 10000 2000 [])]\<rparr>,
        [(Send ws1, OK ''aa'' True (Text ''''))], Done)
   \<and> handleEvent checked_env (Some ws1) (sample_event ''bb'' ''p'' 10000 1000 [])
        (empty_relay\<lparr>events := [(1, sample_event ''aa'' ''p'' 10000 2000 [])]\<rparr>)
     = (empty_relay\<lparr>events := [(2, sample_event ''bb'' ''p'' 10000 1000 [])]\<rparr>,
        [(Send ws1, OK ''bb'' True (Text ''''))], Done)
   \<and> created_at (sample_event ''bb'' ''p'' 10000 1000 [])
       < created_at (sample_event ''aa'' ''p'' 10000 2000 [])
   \<and> handleEvent checked_env (Some ws1)
        ((sample_event ''cc'' ''p'' 1063 1000 [])\<lparr>keys := ''Kind'' # columns, others := [(''Kind'', JNum 10000)]\<rparr>)
        empty_relay
     = (empty_relay\<lparr>events := [(1, sample_event ''cc'' ''p'' 10000 1000 [])]\<rparr>,
        [(Send ws1, OK ''cc'' True (Text ''''))], Done)
   \<and> handleEvent checked_env (Some ws1)
        ((sample_event ''dd'' ''p'' 1063 2000 [])\<lparr>keys := ''Kind'' # columns, others := [(''Kind'', JNum 10000)]\<rparr>)
        (empty_relay\<lparr>events := [(1, sample_event ''cc'' ''p'' 10000 1000 [])]\<rparr>)
     = (empty_relay\<lparr>events := [(1, sample_event ''cc'' ''p'' 10000 1000 []),
                               (2, sample_event ''dd'' ''p'' 10000 2000 [])]\<rparr>,
        [(Send ws1, OK ''dd'' True (Text ''''))], Done)
   \<and> length (holders ''p'' 10000 [(1, sample_event ''cc'' ''p'' 10000 1000 []),
                                    (2, sample_event ''dd'' ''p'' 10000 2000 [])]) = 2"
  by (simp add: request_eval event_eval checked_env_def holders_def)

section \<open>The insert statement (C9)\<close>

lemma next_rowid_fresh:
  assumes "\<forall>r \<in> fst ` set rows. r < 2 ^ 63 - 1"
  shows "\<exists>r. next_rowid random rows = Some r \<and> r \<notin> set (map fst rows)"
proof (cases "map fst rows")
  case Nil
  then show ?thesis by (simp add: next_rowid_def)
next
  case (Cons x xs)
  let ?m = "fold max xs x"
  have m: "?m = Max (set (map fst rows))"
    unfolding Cons by (rule Max.set_eq_fold [symmetric])
  have "Max (set (map fst rows)) \<in> set (map fst rows)"
    using Cons by (intro Max_in) auto
  with assms m have "?m < 2 ^ 63 - 1" by auto
  with Cons have n: "next_rowid random rows = Some (?m + 1)"
    by (simp add: next_rowid_def Let_def)
  have "?m + 1 \<notin> set (map fst rows)"
  proof
    assume "?m + 1 \<in> set (map fst rows)"
    then have "?m + 1 \<le> Max (set (map fst rows))" by (intro Max_ge) auto
    with m show False by simp
  qed
  with n show ?thesis by blast
qed

lemma insert_event_plain:
  assumes "standard_keys e" "\<not> list_ex (\<lambda>t. length t < 2) (single_letter_tags e)"
      and "\<forall>r \<in> fst ` set rows. r < 2 ^ 63 - 1"
  shows "\<exists>rows'. insert_event env e rows = Inr rows'"
proof -
  from next_rowid_fresh [OF assms(3), of "random_rowid env"] obtain r where
    "next_rowid (random_rowid env) rows = Some r" "r \<notin> set (map fst rows)" by blast
  moreover have "single_letter_tags (row_of e) = single_letter_tags e"
    by (simp add: single_letter_tags_def)
  ultimately show ?thesis
    using assms(1,2) by (simp add: insert_event_def insert_row_def)
qed

lemma write_event_plain:
  assumes "standard_keys e" "\<not> list_ex (\<lambda>t. length t < 2) (single_letter_tags e)"
      and "\<forall>r \<in> fst ` set (events st). r < 2 ^ 63 - 1"
      and "\<not> in_txn st"
  shows "\<exists>st1. write_event env e idr st = Inr st1"
  using insert_event_plain [OF assms(1-3), of env] assms(4)
  by (auto simp: write_event_def split: option.splits)

lemma write_event_fails:
  assumes "insert_event env e (events st) = Inl err"
  shows "\<exists>err' st'. write_event env e idr st = Inl (err', st')
           \<and> events st' = events st \<and> subIds st' = subIds st
           \<and> (err' = err \<or> err' = NestedTransaction \<and> in_txn st)"
  using assms
  by (auto simp: write_event_def split: option.splits)

text \<open>
  C9, as the code has it. The column list of the insert is the key list of the object,
  in the object's order. A valid event that is not yet stored, has exactly the seven
  column names for keys and no single-letter tag without a value is inserted
  (acknowledged with \<open>true\<close> on a socket, stored for the REST bridge) when no transaction
  was left open and every rowid of the table is below the largest possible one. For a
  valid event that is not yet stored, whatever its keys, when the insert statement
  raises an error the answer is \<open>["OK", id, false, "error: ..."]\<close> with that error (or
  with the error of \<open>BEGIN\<close>, when a transaction was left open), the exception is
  rethrown, and the table and the registry are as before.
\<close>

theorem insert_is_built_from_keys:
  "serialize e = keys e
   \<and> (validateEvent env e = Inr True \<and> \<not> exists_id (id' e) (events st)
        \<and> standard_keys e \<and> \<not> list_ex (\<lambda>t. length t < 2) (single_letter_tags e)
        \<and> \<not> in_txn st \<and> (\<forall>r \<in> fst ` set (events st). r < 2 ^ 63 - 1)
      \<longrightarrow> (\<exists>st' frames. handleEvent env (Some w) e st
                = (st', (Send w, OK (id' e) True (Text '''')) # frames, Done))
          \<and> (\<exists>st'. handleEvent env None e st = (st', [], Done) \<and> row_of e \<in> snd ` set (events st')))
   \<and> (validateEvent env e = Inr True \<and> \<not> exists_id (id' e) (events st)
        \<and> insert_event env e (events st) = Inl err
      \<longrightarrow> (\<exists>err' st'. handleEvent env (Some w) e st
                = (st', [(Send w, OK (id' e) False (ErrorText err'))], Thrown err')
              \<and> events st' = events st \<and> subIds st' = subIds st
              \<and> (err' = err \<or> err' = NestedTransaction \<and> in_txn st)))"
proof (intro conjI impI)
  show "serialize e = keys e" by (simp add: serialize_def)
next
  assume h: "validateEvent env e = Inr True \<and> \<not> exists_id (id' e) (events st)
        \<and> standard_keys e \<and> \<not> list_ex (\<lambda>t. length t < 2) (single_letter_tags e)
        \<and> \<not> in_txn st \<and> (\<forall>r \<in> fst ` set (events st). r < 2 ^ 63 - 1)"
  then obtain st1 where st1: "write_event env e (idToRemove env e (events st)) st = Inr st1"
    using write_event_plain [of e st env "idToRemove env e (events st)"] by blast
  obtain st2 fr where f: "fanout env w e (subIds st1) st1 = (st2, fr)"
    by (cases "fanout env w e (subIds st1) st1")
  from h st1 f have "handleEvent env (Some w) e st = (st2, (Send w, OK (id' e) True (Text '''')) # fr, Done)"
    by (simp add: handleEvent_def)
  then show "\<exists>st' frames. handleEvent env (Some w) e st
                = (st', (Send w, OK (id' e) True (Text '''')) # frames, Done)" by blast
  from h st1 have r: "handleEvent env None e st = (st1, [], Done)"
    by (simp add: handleEvent_def)
  from h have nex: "\<not> exists_id (id' e) (events st)" and sk: "standard_keys e" by simp_all
  from write_event_rows_of_id [OF st1 nex sk] obtain r0 where
    "filter (\<lambda>row. id' (snd row) = id' e) (events st1) = [(r0, row_of e)]" by blast
  then have "(r0, row_of e) \<in> set (filter (\<lambda>row. id' (snd row) = id' e) (events st1))" by simp
  then have "(r0, row_of e) \<in> set (events st1)" by simp
  then have "row_of e \<in> snd ` set (events st1)" by force
  with r show "\<exists>st'. handleEvent env None e st = (st', [], Done) \<and> row_of e \<in> snd ` set (events st')"
    by blast
next
  assume h: "validateEvent env e = Inr True \<and> \<not> exists_id (id' e) (events st)
        \<and> insert_event env e (events st) = Inl err"
  then obtain err' st' where w: "write_event env e (idToRemove env e (events st)) st = Inl (err', st')"
    "events st' = events st" "subIds st' = subIds st" "err' = err \<or> err' = NestedTransaction \<and> in_txn st"
    using write_event_fails [of env e st err "idToRemove env e (events st)"] by blast
  with h have "handleEvent env (Some w) e st
      = (st', [(Send w, OK (id' e) False (ErrorText err'))], Thrown err')"
    by (simp add: handleEvent_def)
  with w show "\<exists>err' st'. handleEvent env (Some w) e st
                = (st', [(Send w, OK (id' e) False (ErrorText err'))], Thrown err')
              \<and> events st' = events st \<and> subIds st' = subIds st
              \<and> (err' = err \<or> err' = NestedTransaction \<and> in_txn st)" by blast
qed

theorem insert_is_built_from_keys_witness:
  "serialize ((sample_event ''ab'' ''p'' 1063 1000 [])\<lparr>keys := columns @ [''foo''], others := [(''foo'', JNull)]\<rparr>)
     = columns @ [''foo'']
   \<and> (\<exists>st' frames. handleEvent sample_env (Some ws1) (sample_event ''aa'' ''p'' 1063 1000 [[''t'', ''x'']]) empty_relay
         = (st', (Send ws1, OK ''aa'' True (Text '''')) # frames, Done))
   \<and> (\<exists>st'. handleEvent sample_env None (sample_event ''aa'' ''p'' 1063 1000 [[''t'', ''x'']]) empty_relay
         = (st', [], Done)
        \<and> sample_event ''aa'' ''p'' 1063 1000 [[''t'', ''x'']] \<in> snd ` set (events st'))
   \<and> insert_event sample_env
        ((sample_event ''ab'' ''p'' 1063 1000 [])\<lparr>keys := columns @ [''foo''], others := [(''foo'', JNull)]\<rparr>) []
      = Inl (NoSuchColumn ''foo'')
   \<and> (\<exists>st'. handleEvent sample_env (Some ws1)
           ((sample_event ''ab'' ''p'' 1063 1000 [])\<lparr>keys := columns @ [''foo''], others := [(''foo'', JNull)]\<rparr>)
           empty_relay
         = (st', [(Send ws1, OK ''ab'' False (ErrorText (NoSuchColumn ''foo'')))], Thrown (NoSuchColumn ''foo''))
        \<and> events st' = [] \<and> subIds st' = [])"
proof -
  let ?e = "sample_event ''aa'' ''p'' 1063 1000 [[''t'', ''x'']]"
  let ?f = "(sample_event ''ab'' ''p'' 1063 1000 [])\<lparr>keys := columns @ [''foo''], others := [(''foo'', JNull)]\<rparr>"
  have ins: "insert_event sample_env ?f [] = Inl (NoSuchColumn ''foo'')"
    by (simp add: insert_event_def standard_keys_iff sample_event_def columns_def sample_env_def
          sample_insert_def)
  have h1: "validateEvent sample_env ?e = Inr True \<and> \<not> exists_id (id' ?e) (events empty_relay)
        \<and> standard_keys ?e \<and> \<not> list_ex (\<lambda>t. length t < 2) (single_letter_tags ?e)
        \<and> \<not> in_txn empty_relay \<and> (\<forall>r \<in> fst ` set (events empty_relay). r < 2 ^ 63 - 1)"
    by (simp add: validateEvent_def sample_env_def sample_event_def exists_id_def empty_relay_def
          single_letter_tags_def standard_keys_iff columns_def)
  have h2: "validateEvent sample_env ?f = Inr True \<and> \<not> exists_id (id' ?f) (events empty_relay)
        \<and> insert_event sample_env ?f (events empty_relay) = Inl (NoSuchColumn ''foo'')"
    using ins
    by (simp add: validateEvent_def sample_env_def sample_event_def exists_id_def empty_relay_def)
  note t1 = insert_is_built_from_keys [of ?e sample_env empty_relay ws1 "NoSuchColumn ''foo''"]
  note t2 = insert_is_built_from_keys [of ?f sample_env empty_relay ws1 "NoSuchColumn ''foo''"]
  have i: "id' ?e = ''aa''" "id' ?f = ''ab''" "events empty_relay = []" "subIds empty_relay = []"
    "in_txn empty_relay = False"
    by (simp_all add: sample_event_def empty_relay_def)
  have ro: "row_of ?e = ?e" by (simp add: row_of_def sample_event_def)
  from t2 have a: "serialize ?f = columns @ [''foo'']" by (simp add: sample_event_def)
  from t1 h1 have b: "\<exists>st' frames. handleEvent sample_env (Some ws1) ?e empty_relay
         = (st', (Send ws1, OK ''aa'' True (Text '''')) # frames, Done)"
    unfolding i by blast
  from t1 h1 have c: "\<exists>st'. handleEvent sample_env None ?e empty_relay = (st', [], Done)
        \<and> ?e \<in> snd ` set (events st')" unfolding ro by blast
  from t2 h2 have "\<exists>err' st'. handleEvent sample_env (Some ws1) ?f empty_relay
         = (st', [(Send ws1, OK (id' ?f) False (ErrorText err'))], Thrown err')
        \<and> events st' = events empty_relay \<and> subIds st' = subIds empty_relay
        \<and> (err' = NoSuchColumn ''foo'' \<or> err' = NestedTransaction \<and> in_txn empty_relay)"
    by blast
  then have d: "\<exists>st'. handleEvent sample_env (Some ws1) ?f empty_relay
         = (st', [(Send ws1, OK ''ab'' False (ErrorText (NoSuchColumn ''foo'')))], Thrown (NoSuchColumn ''foo''))
        \<and> events st' = [] \<and> subIds st' = []"
    unfolding i by auto
  from a b c ins d show ?thesis by (intro conjI)
qed

text \<open>
  The claim as written fails twice. An additional key \<open>rowid\<close> names the rowid of the
  table, so the statement is valid: the event is stored (as row 7) and acknowledged with
  \<open>true\<close>. And an event with exactly the seven keys and the tag \<open>["t"]\<close> is not inserted:
  the trigger's row for \<open>tags_index\<close> has no value.
\<close>

theorem insert_rowid_key_counterexample:
  "validateEvent sample_env
       ((sample_event ''aa'' ''p'' 1063 1000 [])\<lparr>keys := columns @ [''rowid''], others := [(''rowid'', JNum 7)]\<rparr>)
     = Inr True
   \<and> serialize ((sample_event ''aa'' ''p'' 1063 1000 [])\<lparr>keys := columns @ [''rowid''], others := [(''rowid'', JNum 7)]\<rparr>)
     = [''id'', ''pubkey'', ''sig'', ''kind'', ''created_at'', ''content'', ''tags'', ''rowid'']
   \<and> handleEvent sample_env (Some ws1)
       ((sample_event ''aa'' ''p'' 1063 1000 [])\<lparr>keys := columns @ [''rowid''], others := [(''rowid'', JNum 7)]\<rparr>)
       empty_relay
     = (empty_relay\<lparr>events := [(7, sample_event ''aa'' ''p'' 1063 1000 [])]\<rparr>,
        [(Send ws1, OK ''aa'' True (Text ''''))], Done)
   \<and> standard_keys (sample_event ''ab'' ''p'' 1063 1000 [[''t'']])
   \<and> handleEvent sample_env (Some ws1) (sample_event ''ab'' ''p'' 1063 1000 [[''t'']]) empty_relay
     = (empty_relay, [(Send ws1, OK ''ab'' False (ErrorText NotNullConstraint))],
        Thrown NotNullConstraint)"
  by (simp add: request_eval event_eval)

section \<open>Parameterizable kinds (C4)\<close>

lemma take2_eq: "(take 2 t = [a, b]) = (\<exists>rest. t = a # b # rest)"
proof (cases t)
  case Nil
  then show ?thesis by simp
next
  case (Cons x xs)
  then show ?thesis by (cases xs) (simp_all add: numeral_2_eq_2)
qed

lemma tags_index_d: "(''d:'' @ v \<in> set (tags_index_values x)) = has_d_tag x v"
proof
  assume "''d:'' @ v \<in> set (tags_index_values x)"
  then obtain t where t: "t \<in> set (tags x)" "(case t of [] \<Rightarrow> False | n # _ \<Rightarrow> length n = 1)"
    "''d:'' @ v \<in> set (case t of n # u # _ \<Rightarrow> [n @ '':'' @ u] | _ \<Rightarrow> [])"
    by (auto simp: tags_index_values_def single_letter_tags_def)
  then obtain n u rest where nu: "t = n # u # rest" "length n = 1" "''d:'' @ v = n @ '':'' @ u"
    by (auto split: list.splits)
  from nu(2) obtain c where "n = [c]" by (cases n) auto
  with nu have "take 2 t = [''d'', v]" by (simp add: take2_eq)
  with t(1) show "has_d_tag x v" by (auto simp: has_d_tag_def list_ex_iff)
next
  assume "has_d_tag x v"
  then obtain t where t: "t \<in> set (tags x)" "take 2 t = [''d'', v]"
    by (auto simp: has_d_tag_def list_ex_iff)
  then obtain rest where r: "t = ''d'' # v # rest"
    by (auto simp: take2_eq)
  with t(1) show "''d:'' @ v \<in> set (tags_index_values x)"
    by (force simp: tags_index_values_def single_letter_tags_def)
qed

lemma idToRemove_parameterizable:
  assumes "30000 \<le> kind e" "kind e < 40000" "getFirstTag (tags e) ''d'' = Some v"
  shows "idToRemove env e rows = idQuery env True (pubkey e) (kind e) (''d:'' @ v) rows"
  using assms by (simp add: idToRemove_def template_def)

lemma distinct_ids_row:
  assumes "distinct (map (\<lambda>row. id' (snd row)) rows)" "a \<in> set rows" "b \<in> set rows"
      and "id' (snd a) = id' (snd b)"
  shows "a = b"
  using assms by (meson distinct_map inj_onD)

lemma idQuery_d_Some:
  assumes "idQuery env True pk n (''d:'' @ v) rows = Some i"
  shows "\<exists>h \<in> set rows. id' (snd h) = i \<and> pubkey (snd h) = pk \<and> kind (snd h) = n \<and> has_d_tag (snd h) v"
proof -
  from idQuery_Some [OF assms] obtain h where h: "h \<in> set rows" "id' (snd h) = i"
    "pubkey (snd h) = pk" "kind (snd h) = n" "''d:'' @ v \<in> set (tags_index_values (snd h))"
    by blast
  from h(5) have "has_d_tag (snd h) v" by (simp only: tags_index_d)
  with h show ?thesis by blast
qed

lemma idQuery_d_None:
  assumes "idQuery env True pk n (''d:'' @ v) rows = None" "row \<in> set rows"
      and "pubkey (snd row) = pk" "kind (snd row) = n" "has_d_tag (snd row) v"
  shows False
proof -
  from assms(5) have "''d:'' @ v \<in> set (tags_index_values (snd row))" by (simp only: tags_index_d)
  with idQuery_None [OF assms(1-4)] show False by blast
qed

text \<open>
  C4, as the code has it. The d-tag value \<open>v\<close> of the submitted event is the first value
  of its first tag named \<open>d\<close>; the stored event to replace is looked up by publisher,
  kind and the text \<open>d:v\<close> in the index of all single-letter tags, so any tag \<open>d\<close> of a
  stored event counts, not only its first. When an event of a kind from 30000 to 39999
  that has exactly the seven column names for keys and carries a d-tag value \<open>v\<close> is
  accepted (acknowledged with \<open>true\<close> on a socket, or written for the REST bridge) in a
  table of distinct, non-empty ids: the event is stored; every stored event that is not
  of the same publisher and kind with some tag \<open>d\<close> of value \<open>v\<close> persists; and a stored
  event that is the only one of the same publisher and kind with some tag \<open>d\<close> of value
  \<open>v\<close> is removed.
\<close>

theorem parameterizable_replacement_by_d_tag:
  assumes "handleEvent env (Some w) e st = (st', (Send w, OK (id' e) True (Text '''')) # frames, r)
         \<or> (\<not> exists_id (id' e) (events st) \<and> handleEvent env None e st = (st', frames, Done))"
      and "30000 \<le> kind e" and "kind e < 40000"
      and "getFirstTag (tags e) ''d'' = Some v"
      and "\<forall>row \<in> set (events st). id' (snd row) \<noteq> []"
      and "distinct (map (\<lambda>row. id' (snd row)) (events st))"
      and "standard_keys e"
  shows "row_of e \<in> snd ` set (events st')
       \<and> (\<forall>x \<in> snd ` set (events st).
             \<not> (pubkey x = pubkey e \<and> kind x = kind e \<and> has_d_tag x v) \<longrightarrow> x \<in> snd ` set (events st'))
       \<and> (\<forall>x \<in> snd ` set (events st).
             pubkey x = pubkey e \<and> kind x = kind e \<and> has_d_tag x v
             \<and> (\<forall>y \<in> snd ` set (events st).
                   pubkey y = pubkey e \<and> kind y = kind e \<and> has_d_tag y v \<longrightarrow> y = x)
             \<longrightarrow> x \<notin> snd ` set (events st'))"
proof -
  let ?e' = "row_of e"
  let ?K = "\<lambda>x. pubkey x = pubkey e \<and> kind x = kind e \<and> has_d_tag x v"
  let ?D = "case idToRemove env e (events st) of None \<Rightarrow> [] | Some i \<Rightarrow> if i = [] then [] else [i]"
  have ne: "\<not> ephemeral e" using assms(2) by (simp add: ephemeral_def)
  from handleEvent_written [OF assms(1) ne assms(7)] obtain st1 where
    st1: "write_event env e (idToRemove env e (events st)) st = Inr st1" "events st' = events st1"
    and nex: "\<not> exists_id (id' e) (events st)" by blast
  from write_event_ok [OF st1(1) assms(7)] st1(2) obtain r0 where
    ev: "events st' = delete_ids ?D (insort_key fst (r0, ?e') (events st))" by auto
  note q = idToRemove_parameterizable [OF assms(2,3,4), of env "events st"]
  have a: "?e' \<in> snd ` set (events st')"
  proof -
    from write_event_rows_of_id [OF st1(1) nex assms(7)] st1(2) obtain r1 where
      "filter (\<lambda>row. id' (snd row) = id' e) (events st') = [(r1, ?e')]" by auto
    then have "(r1, ?e') \<in> set (filter (\<lambda>row. id' (snd row) = id' e) (events st'))" by simp
    then show ?thesis by force
  qed
  have b: "\<forall>x \<in> snd ` set (events st). \<not> ?K x \<longrightarrow> x \<in> snd ` set (events st')"
  proof (intro ballI impI)
    fix x assume x: "x \<in> snd ` set (events st)" and nk: "\<not> ?K x"
    then obtain row where row: "row \<in> set (events st)" "x = snd row" by auto
    have "id' x \<notin> set ?D"
    proof (cases "idToRemove env e (events st)")
      case None then show ?thesis by simp
    next
      case (Some i)
      with q have "idQuery env True (pubkey e) (kind e) (''d:'' @ v) (events st) = Some i" by simp
      from idQuery_d_Some [OF this] obtain h where h: "h \<in> set (events st)" "id' (snd h) = i"
        "?K (snd h)" by blast
      have "id' x \<noteq> i"
      proof
        assume "id' x = i"
        with distinct_ids_row [OF assms(6) row(1) h(1)] row(2) h(2) have "row = h" by simp
        with h(3) row(2) nk show False by simp
      qed
      with Some show ?thesis by simp
    qed
    with row ev have "row \<in> set (events st')" by (simp add: set_delete_ids)
    with row(2) show "x \<in> snd ` set (events st')" by force
  qed
  have c: "\<forall>x \<in> snd ` set (events st).
             pubkey x = pubkey e \<and> kind x = kind e \<and> has_d_tag x v
             \<and> (\<forall>y \<in> snd ` set (events st). ?K y \<longrightarrow> y = x)
             \<longrightarrow> x \<notin> snd ` set (events st')"
  proof (intro ballI impI)
    fix x assume x: "x \<in> snd ` set (events st)"
      and k: "pubkey x = pubkey e \<and> kind x = kind e \<and> has_d_tag x v
             \<and> (\<forall>y \<in> snd ` set (events st). ?K y \<longrightarrow> y = x)"
    from x obtain row where row: "row \<in> set (events st)" "x = snd row" by auto
    have "idQuery env True (pubkey e) (kind e) (''d:'' @ v) (events st) \<noteq> None"
    proof
      assume "idQuery env True (pubkey e) (kind e) (''d:'' @ v) (events st) = None"
      from idQuery_d_None [OF this row(1)] k row(2) show False by blast
    qed
    then obtain i where i: "idQuery env True (pubkey e) (kind e) (''d:'' @ v) (events st) = Some i" by auto
    from idQuery_d_Some [OF i] obtain h where h: "h \<in> set (events st)" "id' (snd h) = i"
      "?K (snd h)" by blast
    from h(1) have "snd h \<in> snd ` set (events st)" by simp
    with k h(3) have "snd h = x" by blast
    with h(2) have ix: "i = id' x" by simp
    from assms(5) row have "id' x \<noteq> []" by blast
    with i q ix have D: "?D = [id' x]" by simp
    show "x \<notin> snd ` set (events st')"
    proof
      assume "x \<in> snd ` set (events st')"
      then obtain row' where row': "row' \<in> set (events st')" "snd row' = x" by auto
      from row'(1) ev D have "id' (snd row') \<noteq> id' x" by (simp add: set_delete_ids)
      with row'(2) show False by simp
    qed
  qed
  from a b c show ?thesis by (intro conjI)
qed

theorem parameterizable_replacement_by_d_tag_witness:
  "handleEvent sample_env (Some ws1) (sample_event ''ac'' ''p'' 30063 2000 [[''d'', ''app.one'']])
       (empty_relay\<lparr>events := [(1, sample_event ''aa'' ''p'' 30063 1000 [[''d'', ''app.one'']]),
                                (2, sample_event ''ab'' ''p'' 30063 1000 [[''d'', ''app.two'']])]\<rparr>)
     = (empty_relay\<lparr>events := [(2, sample_event ''ab'' ''p'' 30063 1000 [[''d'', ''app.two'']]),
                                (3, sample_event ''ac'' ''p'' 30063 2000 [[''d'', ''app.one'']])]\<rparr>,
        [(Send ws1, OK ''ac'' True (Text ''''))], Done)
   \<and> sample_event ''ac'' ''p'' 30063 2000 [[''d'', ''app.one'']]
       \<in> snd ` set [(2::int, sample_event ''ab'' ''p'' 30063 1000 [[''d'', ''app.two'']]),
                    (3, sample_event ''ac'' ''p'' 30063 2000 [[''d'', ''app.one'']])]
   \<and> sample_event ''ab'' ''p'' 30063 1000 [[''d'', ''app.two'']]
       \<in> snd ` set [(2::int, sample_event ''ab'' ''p'' 30063 1000 [[''d'', ''app.two'']]),
                    (3, sample_event ''ac'' ''p'' 30063 2000 [[''d'', ''app.one'']])]
   \<and> sample_event ''aa'' ''p'' 30063 1000 [[''d'', ''app.one'']]
       \<notin> snd ` set [(2::int, sample_event ''ab'' ''p'' 30063 1000 [[''d'', ''app.two'']]),
                    (3, sample_event ''ac'' ''p'' 30063 2000 [[''d'', ''app.one'']])]"
proof -
  let ?ea = "sample_event ''aa'' ''p'' 30063 1000 [[''d'', ''app.one'']]"
  let ?eb = "sample_event ''ab'' ''p'' 30063 1000 [[''d'', ''app.two'']]"
  let ?ec = "sample_event ''ac'' ''p'' 30063 2000 [[''d'', ''app.one'']]"
  let ?st = "empty_relay\<lparr>events := [(1, ?ea), (2, ?eb)]\<rparr>"
  let ?st' = "empty_relay\<lparr>events := [(2, ?eb), (3, ?ec)]\<rparr>"
  have acc: "handleEvent sample_env (Some ws1) ?ec ?st
      = (?st', (Send ws1, OK (id' ?ec) True (Text '''')) # [], Done)"
    by (simp add: request_eval event_eval)
  then have acc': "handleEvent sample_env (Some ws1) ?ec ?st
      = (?st', (Send ws1, OK (id' ?ec) True (Text '''')) # [], Done)
      \<or> (\<not> exists_id (id' ?ec) (events ?st) \<and> handleEvent sample_env None ?ec ?st = (?st', [], Done))"
    by (rule disjI1)
  have sk: "standard_keys ?ec" by (simp add: standard_keys_iff sample_event_def columns_def)
  have k: "30000 \<le> kind ?ec" "kind ?ec < 40000" by (simp_all add: sample_event_def)
  have d: "getFirstTag (tags ?ec) ''d'' = Some ''app.one''"
    by (simp add: getFirstTag_def sample_event_def)
  have ids: "\<forall>row \<in> set (events ?st). id' (snd row) \<noteq> []"
    by (simp add: sample_event_def empty_relay_def)
  have dist: "distinct (map (\<lambda>row. id' (snd row)) (events ?st))"
    by (simp add: sample_event_def empty_relay_def)
  have ev: "events ?st = [(1, ?ea), (2, ?eb)]" "events ?st' = [(2, ?eb), (3, ?ec)]"
    by (simp_all add: empty_relay_def)
  have x: "row_of ?ec = ?ec" by (simp add: row_of_def sample_event_def)
  have mb: "?eb \<in> snd ` set (events ?st)" and ma: "?ea \<in> snd ` set (events ?st)"
    unfolding ev by simp_all
  have nb: "\<not> (pubkey ?eb = pubkey ?ec \<and> kind ?eb = kind ?ec \<and> has_d_tag ?eb ''app.one'')"
    by (simp add: has_d_tag_def sample_event_def)
  have ka: "pubkey ?ea = pubkey ?ec \<and> kind ?ea = kind ?ec \<and> has_d_tag ?ea ''app.one''
      \<and> (\<forall>y \<in> snd ` set (events ?st).
             pubkey y = pubkey ?ec \<and> kind y = kind ?ec \<and> has_d_tag y ''app.one'' \<longrightarrow> y = ?ea)"
    unfolding ev by (simp add: has_d_tag_def sample_event_def)
  note t = parameterizable_replacement_by_d_tag [OF acc' k d ids dist sk]
  from t have a: "?ec \<in> snd ` set (events ?st')" unfolding x by blast
  from t mb nb have b: "?eb \<in> snd ` set (events ?st')" by blast
  from t ma ka have c: "?ea \<notin> snd ` set (events ?st')" by blast
  have i: "id' ?ec = ''ac''" by (simp add: sample_event_def)
  from acc have acc2: "handleEvent sample_env (Some ws1) ?ec ?st
      = (?st', [(Send ws1, OK ''ac'' True (Text ''''))], Done)" unfolding i .
  from acc2 a b c show ?thesis unfolding ev by (intro conjI)
qed

text \<open>
  The claim as written fails twice. Two kind-30063 events of one publisher, both
  without a d-tag, are both retained: the lookup is made with the text \<open>d:undefined\<close>,
  which matches no \<open>tags_index\<close> row of an event that has no d-tag. And two events with
  different d-tags do not both persist when the stored one has a further tag \<open>d\<close>: the
  stored event has the d-tag \<open>y\<close> and a second tag \<open>["d", "x"]\<close>, and a submission with
  the d-tag \<open>x\<close> removes it.
\<close>

theorem parameterizable_absent_d_counterexample:
  "getFirstTag (tags (sample_event ''aa'' ''p'' 30063 1000 [])) ''d'' = None
   \<and> getFirstTag (tags (sample_event ''ab'' ''p'' 30063 2000 [])) ''d'' = None
   \<and> handleEvent sample_env (Some ws1) (sample_event ''aa'' ''p'' 30063 1000 []) empty_relay
     = (empty_relay\<lparr>events := [(1, sample_event ''aa'' ''p'' 30063 1000 [])]\<rparr>,
        [(Send ws1, OK ''aa'' True (Text ''''))], Done)
   \<and> handleEvent sample_env (Some ws1) (sample_event ''ab'' ''p'' 30063 2000 [])
        (empty_relay\<lparr>events := [(1, sample_event ''aa'' ''p'' 30063 1000 [])]\<rparr>)
     = (empty_relay\<lparr>events := [(1, sample_event ''aa'' ''p'' 30063 1000 []),
                                 (2, sample_event ''ab'' ''p'' 30063 2000 [])]\<rparr>,
        [(Send ws1, OK ''ab'' True (Text ''''))], Done)
   \<and> getFirstTag (tags (sample_event ''ac'' ''p'' 30063 1000 [[''d'', ''y''], [''d'', ''x'']])) ''d''
       = Some ''y''
   \<and> getFirstTag (tags (sample_event ''ad'' ''p'' 30063 2000 [[''d'', ''x'']])) ''d'' = Some ''x''
   \<and> handleEvent sample_env (Some ws1) (sample_event ''ad'' ''p'' 30063 2000 [[''d'', ''x'']])
        (empty_relay\<lparr>events := [(1, sample_event ''ac'' ''p'' 30063 1000 [[''d'', ''y''], [''d'', ''x'']])]\<rparr>)
     = (empty_relay\<lparr>events := [(2, sample_event ''ad'' ''p'' 30063 2000 [[''d'', ''x'']])]\<rparr>,
        [(Send ws1, OK ''ad'' True (Text ''''))], Done)"
  by code_simp

section \<open>Fan-out and historical queries (C1)\<close>




lemma admitted_ids [simp]: "admitted (f\<lparr>ids := i\<rparr>) = admitted f"
  by (simp add: admitted_def)










end
